theory Spec2Isabelle
  imports Complex_Main "HOL-Library.Monad_Syntax"
begin

section \<open>The outside world of \<^verbatim>\<open>abipy/tools/iotools.py\<close>\<close>

text \<open>
  The helpers of \<^verbatim>\<open>iotools.py\<close> read lines from standard input, write to standard
  output and start an external editor. The world they act on is made explicit:
  \<^item> \<open>stdin\<close>: what the successive calls of the builtin \<^verbatim>\<open>input\<close> will meet, oldest
    first: a line (without its newline), a \<^verbatim>\<open>KeyboardInterrupt\<close> or an \<^verbatim>\<open>EOFError\<close>;
  \<^item> \<open>procs\<close>: how the successive calls of \<^verbatim>\<open>subprocess.call\<close> will end, oldest first:
    the process exits with a return code, or the call raises \<^verbatim>\<open>OSError\<close> (no such
    program);
  \<^item> \<open>stdout\<close>: what has been written so far;
  \<^item> \<open>calls\<close>: the argument vectors handed to \<^verbatim>\<open>subprocess.call\<close> so far.

  Both event lists are finite prefixes of what will happen. A function that needs an
  event when none is left has not returned: its outcome is \<open>Blocked\<close> (the user has not
  typed yet, the editor is still open). Nothing is assumed about what comes later.

  A character is a code point below 256, so \<open>lower\<close> and \<open>strip\<close> below are Python's
  \<^verbatim>\<open>str.lower\<close> and \<^verbatim>\<open>str.strip\<close> on Latin-1 text.
\<close>

datatype exn =
  EOFError | KeyboardInterrupt | OSError | TypeError | IndexError | ValueError | YAMLError

datatype 'a outcome = Returned 'a | Raised exn | Blocked

datatype stdin_event = Line string | Interrupt | Eof

datatype call_result = Exit int | CallFails

datatype written = Prompt string | Print string | Cprint string string

record world =
  stdin :: "stdin_event list"
  procs :: "call_result list"
  stdout :: "written list"
  calls :: "string list list"

subsection \<open>Python's string helpers\<close>

definition lower_char :: "char \<Rightarrow> char" where
  "lower_char c =
     (let n = (of_char c :: nat)
      in if (65 \<le> n \<and> n \<le> 90) \<or> (192 \<le> n \<and> n \<le> 222 \<and> n \<noteq> 215)
         then char_of (n + 32) else c)"

definition lower :: "string \<Rightarrow> string" where
  "lower s = map lower_char s"

definition is_space :: "char \<Rightarrow> bool" where
  "is_space c =
     (let n = (of_char c :: nat)
      in (9 \<le> n \<and> n \<le> 13) \<or> (28 \<le> n \<and> n \<le> 32) \<or> n = 133 \<or> n = 160)"

definition strip :: "string \<Rightarrow> string" where
  "strip s = rev (dropWhile is_space (rev (dropWhile is_space s)))"

text \<open>\<^verbatim>\<open>str(n)\<close> for an integer, as \<^verbatim>\<open>"%s" % n\<close> prints it.\<close>

fun str_nat :: "nat \<Rightarrow> string" where
  "str_nat n =
     (if n < 10 then [char_of (48 + n)]
      else str_nat (n div 10) @ [char_of (48 + n mod 10)])"

declare str_nat.simps [simp del]

definition str_int :: "int \<Rightarrow> string" where
  "str_int i = (if i < 0 then CHR ''-'' # str_nat (nat (- i)) else str_nat (nat i))"

subsection \<open>\<^verbatim>\<open>get_input\<close> and \<^verbatim>\<open>ask_yes_no\<close>\<close>

text \<open>
  \<^verbatim>\<open>get_input(prompt)\<close> is \<^verbatim>\<open>input(prompt)\<close>: the prompt is written, then the next event
  of standard input decides.
\<close>

definition get_input :: "string \<Rightarrow> world \<Rightarrow> string outcome \<times> world" where
  "get_input prompt w =
     (let w1 = w\<lparr>stdout := stdout w @ [Prompt prompt]\<rparr>
      in case stdin w of
           [] \<Rightarrow> (Blocked, w1)
         | Line s # rest \<Rightarrow> (Returned s, w1\<lparr>stdin := rest\<rparr>)
         | Interrupt # rest \<Rightarrow> (Raised KeyboardInterrupt, w1\<lparr>stdin := rest\<rparr>)
         | Eof # rest \<Rightarrow> (Raised EOFError, w1\<lparr>stdin := rest\<rparr>))"

text \<open>\<^verbatim>\<open>answers = {'y': True, 'n': False, 'yes': True, 'no': False}\<close>\<close>

definition answers :: "(string \<times> bool) list" where
  "answers = [(''y'', True), (''n'', False), (''yes'', True), (''no'', False)]"

text \<open>
  The value of \<^verbatim>\<open>ans\<close> (or of \<^verbatim>\<open>default\<close>) is \<^verbatim>\<open>None\<close> or a string.
  \<open>answers_get ans\<close> is \<open>Some (answers[ans])\<close> when \<^verbatim>\<open>ans in answers.keys()\<close>, and
  \<open>None\<close> otherwise.
\<close>

definition answers_get :: "string option \<Rightarrow> bool option" where
  "answers_get ans = (case ans of None \<Rightarrow> None | Some a \<Rightarrow> map_of answers a)"

lemma get_input_stdin_length:
  "get_input prompt w = (r, w1) \<Longrightarrow> r \<noteq> Blocked \<Longrightarrow> length (stdin w1) < length (stdin w)"
  by (auto simp: get_input_def Let_def split: list.splits stdin_event.splits)

text \<open>
  The \<^verbatim>\<open>while ans not in answers.keys()\<close> loop, entered with the current value of
  \<^verbatim>\<open>ans\<close>. A \<^verbatim>\<open>KeyboardInterrupt\<close> is swallowed and leaves \<^verbatim>\<open>ans\<close> as it was; an
  \<^verbatim>\<open>EOFError\<close> takes the default when that is an answer and is raised again otherwise.
\<close>

function ask_yes_no_loop ::
  "string \<Rightarrow> string option \<Rightarrow> string option \<Rightarrow> world \<Rightarrow> bool outcome \<times> world" where
  "ask_yes_no_loop prompt dflt ans w =
     (case answers_get ans of
        Some b \<Rightarrow> (Returned b, w)
      | None \<Rightarrow>
          (case get_input (prompt @ '' '') w of
             (Returned s, w1) \<Rightarrow>
               ask_yes_no_loop prompt dflt
                 (if lower s = [] then dflt else Some (lower s)) w1
           | (Raised KeyboardInterrupt, w1) \<Rightarrow> ask_yes_no_loop prompt dflt ans w1
           | (Raised EOFError, w1) \<Rightarrow>
               (case answers_get dflt of
                  Some b \<Rightarrow>
                    ask_yes_no_loop prompt dflt dflt
                      (w1\<lparr>stdout := stdout w1 @ [Print '''']\<rparr>)
                | None \<Rightarrow> (Raised EOFError, w1))
           | (Raised e, w1) \<Rightarrow> (Raised e, w1)
           | (Blocked, w1) \<Rightarrow> (Blocked, w1)))"
  by pat_completeness auto
termination
  by (relation "measure (\<lambda>(prompt, dflt, ans, w). length (stdin w))")
     (auto dest: get_input_stdin_length [OF sym])

declare ask_yes_no_loop.simps [simp del]

definition ask_yes_no :: "string \<Rightarrow> string option \<Rightarrow> world \<Rightarrow> bool outcome \<times> world" where
  "ask_yes_no prompt dflt w = ask_yes_no_loop prompt dflt None w"

subsection \<open>\<^verbatim>\<open>_user_wants_to_exit\<close>\<close>

text \<open>
  The prompt between two files. An \<^verbatim>\<open>EOFError\<close> counts as the wish to stop; a
  \<^verbatim>\<open>KeyboardInterrupt\<close> is not caught here and reaches the caller.
\<close>

definition user_wants_to_exit :: "world \<Rightarrow> bool outcome \<times> world" where
  "user_wants_to_exit w =
     (case get_input ''Do you want to continue [Y/n]'' w of
        (Returned answer, w1) \<Rightarrow>
          if strip (lower answer) \<in> set [''n'', ''no''] then (Returned True, w1)
          else (Returned False, w1)
      | (Raised EOFError, w1) \<Rightarrow> (Returned True, w1)
      | (Raised e, w1) \<Rightarrow> (Raised e, w1)
      | (Blocked, w1) \<Rightarrow> (Blocked, w1))"

text \<open>
  What an event at that prompt amounts to: \<open>stops e\<close> holds when
  \<^verbatim>\<open>_user_wants_to_exit\<close> returns \<^verbatim>\<open>True\<close> on it.
\<close>

definition stops :: "stdin_event \<Rightarrow> bool" where
  "stops e =
     (case e of
        Line s \<Rightarrow> strip (lower s) \<in> set [''n'', ''no'']
      | Interrupt \<Rightarrow> False
      | Eof \<Rightarrow> True)"

subsection \<open>The class \<^verbatim>\<open>Editor\<close>\<close>

record Editor =
  editor :: string

definition DEFAULT_EDITOR :: string where
  "DEFAULT_EDITOR = ''vi''"

text \<open>
  \<^verbatim>\<open>os.getenv(key, default)\<close> over the process environment, a map from names to values:
  the default is used only when the variable is not set.
\<close>

definition getenv :: "(string \<rightharpoonup> string) \<Rightarrow> string \<Rightarrow> string \<Rightarrow> string" where
  "getenv env key dflt = (case env key of None \<Rightarrow> dflt | Some v \<Rightarrow> v)"

text \<open>\<^verbatim>\<open>Editor.__init__(self, editor=None)\<close>; the argument is \<^verbatim>\<open>None\<close> or a string.\<close>

definition Editor_init :: "(string \<rightharpoonup> string) \<Rightarrow> string option \<Rightarrow> Editor" where
  "Editor_init env ed =
     (case ed of
        None \<Rightarrow> \<lparr>editor = getenv env ''EDITOR'' DEFAULT_EDITOR\<rparr>
      | Some name \<Rightarrow> \<lparr>editor = name\<rparr>)"

text \<open>
  \<^verbatim>\<open>subprocess.call(argv)\<close>: the argument vector is recorded, then the next event of
  \<open>procs\<close> decides.
\<close>

definition call :: "string list \<Rightarrow> world \<Rightarrow> int outcome \<times> world" where
  "call argv w =
     (let w1 = w\<lparr>calls := calls w @ [argv]\<rparr>
      in case procs w of
           [] \<Rightarrow> (Blocked, w1)
         | Exit retcode # rest \<Rightarrow> (Returned retcode, w1\<lparr>procs := rest\<rparr>)
         | CallFails # rest \<Rightarrow> (Raised OSError, w1\<lparr>procs := rest\<rparr>))"

text \<open>\<^verbatim>\<open>cprint(text, color)\<close> of \<^verbatim>\<open>monty.termcolor\<close> writes the coloured text.\<close>

definition cprint :: "string \<Rightarrow> string \<Rightarrow> world \<Rightarrow> world" where
  "cprint text color w = w\<lparr>stdout := stdout w @ [Cprint text color]\<rparr>"

definition edit_file :: "Editor \<Rightarrow> string \<Rightarrow> world \<Rightarrow> int outcome \<times> world" where
  "edit_file self fname w =
     (case call [editor self, fname] w of
        (Returned retcode, w1) \<Rightarrow>
          if retcode \<noteq> 0
          then (Returned retcode,
                cprint (''Retcode '' @ str_int retcode @ '' while editing file: '' @ fname)
                  ''red'' w1)
          else (Returned retcode, w1)
      | (Raised e, w1) \<Rightarrow> (Raised e, w1)
      | (Blocked, w1) \<Rightarrow> (Blocked, w1))"

text \<open>
  The argument \<^verbatim>\<open>fnames\<close> of \<^verbatim>\<open>edit_files\<close> is one string or a list of strings.
  \<^verbatim>\<open>list_strings\<close> (of \<^verbatim>\<open>monty.string\<close>) makes a list of either, while
  \<^verbatim>\<open>len(fnames)\<close> is taken of the argument as it was given: of a single string it is
  the number of its characters.
\<close>

datatype fnames_arg = Str string | StrList "string list"

fun list_strings :: "fnames_arg \<Rightarrow> string list" where
  "list_strings (Str s) = [s]"
| "list_strings (StrList l) = l"

fun len :: "fnames_arg \<Rightarrow> int" where
  "len (Str s) = int (length s)"
| "len (StrList l) = int (length l)"

text \<open>
  The \<^verbatim>\<open>for idx, fname in enumerate(...)\<close> loop of \<^verbatim>\<open>edit_files\<close>, at index \<open>idx\<close> with
  the files still to visit; \<open>n\<close> is \<^verbatim>\<open>len(fnames)\<close>. The conjunction is evaluated left
  to right, so the user is asked only when \<^verbatim>\<open>ask_for_exit\<close> holds and the index is not
  \<open>n - 1\<close>. Leaving the loop, by \<^verbatim>\<open>break\<close> or at its end, returns 0.
\<close>

fun edit_files_loop ::
  "Editor \<Rightarrow> bool \<Rightarrow> int \<Rightarrow> nat \<Rightarrow> string list \<Rightarrow> world \<Rightarrow> int outcome \<times> world" where
  "edit_files_loop self ask_for_exit n idx [] w = (Returned 0, w)"
| "edit_files_loop self ask_for_exit n idx (fname # rest) w =
     (case edit_file self fname w of
        (Returned exit_status, w1) \<Rightarrow>
          if exit_status \<noteq> 0 then (Returned exit_status, w1)
          else if ask_for_exit \<and> int idx \<noteq> n - 1
          then (case user_wants_to_exit w1 of
                  (Returned stop, w2) \<Rightarrow>
                    if stop then (Returned 0, w2)
                    else edit_files_loop self ask_for_exit n (Suc idx) rest w2
                | (Raised e, w2) \<Rightarrow> (Raised e, w2)
                | (Blocked, w2) \<Rightarrow> (Blocked, w2))
          else edit_files_loop self ask_for_exit n (Suc idx) rest w1
      | (Raised e, w1) \<Rightarrow> (Raised e, w1)
      | (Blocked, w1) \<Rightarrow> (Blocked, w1))"

definition edit_files :: "Editor \<Rightarrow> fnames_arg \<Rightarrow> bool \<Rightarrow> world \<Rightarrow> int outcome \<times> world" where
  "edit_files self fnames ask_for_exit w =
     edit_files_loop self ask_for_exit (len fnames) 0 (list_strings fnames) w"

subsection \<open>The class \<^verbatim>\<open>ExitStackWithFiles\<close>\<close>

text \<open>
  An \<^verbatim>\<open>ExitStackWithFiles\<close> holds the list \<^verbatim>\<open>files\<close> and, from \<^verbatim>\<open>ExitStack\<close>, the
  stack of registered exit callbacks, kept here as the context managers whose
  \<^verbatim>\<open>__exit__\<close> was registered, oldest first. An entry of \<^verbatim>\<open>files\<close> is \<^verbatim>\<open>None\<close> or an
  object. What \<^verbatim>\<open>__enter__\<close> does to an object is the parameter \<open>enter\<close>: it returns a
  value or raises (\<^verbatim>\<open>TypeError\<close> for an object that is no context manager).
\<close>

record 'f ExitStackWithFiles =
  files :: "'f option list"
  exit_callbacks :: "'f list"

definition ExitStackWithFiles_init :: "'f ExitStackWithFiles" where
  "ExitStackWithFiles_init = \<lparr>files = [], exit_callbacks = []\<rparr>"

text \<open>
  \<^verbatim>\<open>ExitStack.enter_context(cm)\<close> of \<^verbatim>\<open>contextlib\<close>: enter the context manager, register
  its \<^verbatim>\<open>__exit__\<close> and return what \<^verbatim>\<open>__enter__\<close> returned; nothing is registered when
  entering raises.
\<close>

definition ExitStack_enter_context ::
  "('f \<Rightarrow> exn + 'r) \<Rightarrow> 'f \<Rightarrow> 'f ExitStackWithFiles \<Rightarrow> (exn + 'r) \<times> 'f ExitStackWithFiles" where
  "ExitStack_enter_context enter cm self =
     (case enter cm of
        Inl e \<Rightarrow> (Inl e, self)
      | Inr result \<Rightarrow> (Inr result, self\<lparr>exit_callbacks := exit_callbacks self @ [cm]\<rparr>))"

text \<open>
  \<^verbatim>\<open>ExitStackWithFiles.enter_context(myfile)\<close>. A Python function that ends without
  \<^verbatim>\<open>return\<close> returns \<^verbatim>\<open>None\<close>, so the result is \<^verbatim>\<open>None\<close> or the value of the parent's
  method.
\<close>

definition enter_context ::
  "('f \<Rightarrow> exn + 'r) \<Rightarrow> 'f option \<Rightarrow> 'f ExitStackWithFiles \<Rightarrow>
   (exn + 'r option) \<times> 'f ExitStackWithFiles" where
  "enter_context enter myfile self =
     (let self1 = self\<lparr>files := files self @ [myfile]\<rparr>
      in case myfile of
           None \<Rightarrow> (Inr None, self1)
         | Some f \<Rightarrow>
             (case ExitStack_enter_context enter f self1 of
                (Inl e, self2) \<Rightarrow> (Inl e, self2)
              | (Inr result, self2) \<Rightarrow> (Inr (Some result), self2)))"

text \<open>\<^verbatim>\<open>__iter__\<close> yields the elements of \<^verbatim>\<open>files\<close> in order.\<close>

definition iter :: "'f ExitStackWithFiles \<Rightarrow> 'f option list" where
  "iter self = files self"

text \<open>
  \<^verbatim>\<open>__getitem__\<close> with an integer index is the list's: an index below zero counts from
  the end, and one outside the list raises \<^verbatim>\<open>IndexError\<close>.
\<close>

definition getitem :: "'f ExitStackWithFiles \<Rightarrow> int \<Rightarrow> exn + 'f option" where
  "getitem self i =
     (if 0 \<le> i \<and> i < int (length (files self)) then Inr (files self ! nat i)
      else if i < 0 \<and> - int (length (files self)) \<le> i
      then Inr (files self ! nat (int (length (files self)) + i))
      else Inl IndexError)"

text \<open>
  The state after a sequence of \<^verbatim>\<open>enter_context\<close> calls, whatever each of them
  returned or raised.
\<close>

fun enter_all ::
  "('f \<Rightarrow> exn + 'r) \<Rightarrow> 'f option list \<Rightarrow> 'f ExitStackWithFiles \<Rightarrow> 'f ExitStackWithFiles" where
  "enter_all enter [] self = self"
| "enter_all enter (x # xs) self = enter_all enter xs (snd (enter_context enter x self))"

section \<open>YAML documents\<close>

text \<open>
  What the YAML loader returns: scalars, sequences and mappings (a mapping keeps the
  order of its keys). \<^verbatim>\<open>yaml_safe_load(string)\<close> of \<^verbatim>\<open>iotools.py\<close> hands the string to
  the loader of \<^verbatim>\<open>ruamel.yaml\<close>, the parameter \<open>load\<close>, and returns its result; a
  malformed document is the loader's error.
\<close>

datatype yaml =
  YNull | YInt int | YFloat rat | YStr string | YSeq "yaml list" | YMap "(string \<times> yaml) list"

definition yaml_safe_load :: "(string \<Rightarrow> exn + yaml) \<Rightarrow> string \<Rightarrow> exn + yaml" where
  "yaml_safe_load load string = load string"

definition ymap_get :: "string \<Rightarrow> yaml \<Rightarrow> yaml option" where
  "ymap_get key d = (case d of YMap kvs \<Rightarrow> map_of kvs key | _ \<Rightarrow> None)"

definition get_int :: "string \<Rightarrow> yaml \<Rightarrow> int option" where
  "get_int key d = (case ymap_get key d of Some (YInt i) \<Rightarrow> Some i | _ \<Rightarrow> None)"

definition get_str :: "string \<Rightarrow> yaml \<Rightarrow> string option" where
  "get_str key d = (case ymap_get key d of Some (YStr s) \<Rightarrow> Some s | _ \<Rightarrow> None)"

definition get_seq :: "string \<Rightarrow> yaml \<Rightarrow> yaml list option" where
  "get_seq key d = (case ymap_get key d of Some (YSeq l) \<Rightarrow> Some l | _ \<Rightarrow> None)"

text \<open>A number read as a float: YAML writes \<^verbatim>\<open>1\<close> or \<^verbatim>\<open>1.0\<close>.\<close>

definition get_num :: "string \<Rightarrow> yaml \<Rightarrow> rat option" where
  "get_num key d =
     (case ymap_get key d of
        Some (YFloat x) \<Rightarrow> Some x
      | Some (YInt i) \<Rightarrow> Some (of_int i)
      | _ \<Rightarrow> None)"

definition unlines :: "string list \<Rightarrow> string" where
  "unlines ls = concat (map (\<lambda>l. l @ [CHR 0x0A]) ls)"

section \<open>Task managers (\<^verbatim>\<open>abipy.flowtk.tasks\<close>, exercised by \<^verbatim>\<open>test_tasks.py\<close>)\<close>

text \<open>
  The module \<^verbatim>\<open>abipy/flowtk/tasks.py\<close> is not among the source files; its test
  \<^verbatim>\<open>abipy/flowtk/tests/test_tasks.py\<close> is. The definitions of this section and the next
  are modelled from the specification, and each says so.
\<close>

text \<open>
  Modelled from the spec: the class \<^verbatim>\<open>QueueAdapter\<close> is missing. A queue adapter is
  "a description of how to submit work to one HPC batch-queue system (type, limits,
  hardware, job environment)", read from a document with the entries "priority, queue
  type/name/params, resource limits, hardware description, job environment/module
  list, MPI runner". The hardware and job entries are kept as the sub-documents they
  are. The adapter also holds the process and thread counts in use.
\<close>

record QueueAdapter =
  priority :: int
  qtype :: string
  qname :: string
  qparams :: yaml
  timelimit :: string
  min_cores :: int
  max_cores :: int
  hardware :: yaml
  job :: yaml
  mpi_procs :: int
  omp_threads :: int

text \<open>
  Modelled from the spec: the constructor of \<^verbatim>\<open>QueueAdapter\<close> is missing. "No
  autoparal override \<open>\<Rightarrow>\<close> one MPI process per minimum-core limit, one thread": a new
  adapter runs \<open>min_cores\<close> processes of one thread. The entries are those of the
  sample document; one that is missing or of the wrong kind is a failure ("no
  invariants beyond schema validity").
\<close>

definition QueueAdapter_of_doc :: "yaml \<Rightarrow> QueueAdapter option" where
  "QueueAdapter_of_doc d =
     do {
       p \<leftarrow> get_int ''priority'' d;
       q \<leftarrow> ymap_get ''queue'' d;
       t \<leftarrow> get_str ''qtype'' q;
       nm \<leftarrow> get_str ''qname'' q;
       qp \<leftarrow> ymap_get ''qparams'' q;
       l \<leftarrow> ymap_get ''limits'' d;
       tl \<leftarrow> get_str ''timelimit'' l;
       lo \<leftarrow> get_int ''min_cores'' l;
       hi \<leftarrow> get_int ''max_cores'' l;
       h \<leftarrow> ymap_get ''hardware'' d;
       j \<leftarrow> ymap_get ''job'' d;
       Some \<lparr>priority = p, qtype = t, qname = nm, qparams = qp, timelimit = tl,
             min_cores = lo, max_cores = hi, hardware = h, job = j,
             mpi_procs = lo, omp_threads = 1\<rparr>
     }"

text \<open>
  Modelled from the spec: \<^verbatim>\<open>QueueAdapter.num_cores\<close> is missing. The core count is "the
  product (processes \<open>\<times>\<close> threads)".
\<close>

definition num_cores :: "QueueAdapter \<Rightarrow> int" where
  "num_cores q = mpi_procs q * omp_threads q"

text \<open>
  Modelled from the spec: the dictionary form of a \<^verbatim>\<open>QueueAdapter\<close> is missing. It is
  the document the adapter is read from, its entries in the order of the sample.
\<close>

definition QueueAdapter_as_dict :: "QueueAdapter \<Rightarrow> yaml" where
  "QueueAdapter_as_dict q =
     YMap [(''priority'', YInt (priority q)),
           (''queue'', YMap [(''qtype'', YStr (qtype q)), (''qname'', YStr (qname q)),
                             (''qparams'', qparams q)]),
           (''limits'', YMap [(''timelimit'', YStr (timelimit q)),
                              (''min_cores'', YInt (min_cores q)),
                              (''max_cores'', YInt (max_cores q))]),
           (''hardware'', hardware q),
           (''job'', job q)]"

text \<open>
  Modelled from the spec: the classes \<^verbatim>\<open>TaskPolicy\<close> and \<^verbatim>\<open>TaskManager\<close> are missing. A
  policy holds "user-level preferences constraining automatic parallel-configuration
  selection"; of these the test reads \<^verbatim>\<open>autoparal\<close>. A manager is "a manager record
  with nested queue/limits/hardware/job sub-records": a policy and one queue adapter
  or more, \<^verbatim>\<open>qads\<close>; the adapter in use, \<open>qad\<close>, is the first.
\<close>

record TaskPolicy =
  autoparal :: int

record TaskManager =
  policy :: TaskPolicy
  qad :: QueueAdapter
  other_qads :: "QueueAdapter list"

definition qads :: "TaskManager \<Rightarrow> QueueAdapter list" where
  "qads m = qad m # other_qads m"

text \<open>
  Modelled from the spec: the properties \<^verbatim>\<open>TaskManager.num_cores\<close>, \<^verbatim>\<open>mpi_procs\<close>,
  \<^verbatim>\<open>omp_threads\<close> and \<^verbatim>\<open>has_queue\<close> are missing. The "core/process/thread counts" of
  a manager are those of its adapter in use, and a "shell" manager is one with no
  queue.
\<close>

definition manager_num_cores :: "TaskManager \<Rightarrow> int" where
  "manager_num_cores m = num_cores (qad m)"

definition manager_mpi_procs :: "TaskManager \<Rightarrow> int" where
  "manager_mpi_procs m = mpi_procs (qad m)"

definition manager_omp_threads :: "TaskManager \<Rightarrow> int" where
  "manager_omp_threads m = omp_threads (qad m)"

definition has_queue :: "TaskManager \<Rightarrow> bool" where
  "has_queue m = (qtype (qad m) \<noteq> ''shell'')"

text \<open>
  Modelled from the spec: the reading of the \<^verbatim>\<open>policy\<close> entry is missing. The "default
  policy" is the one with no autoparal override, \<^verbatim>\<open>autoparal = 0\<close>.
\<close>

definition TaskPolicy_of_doc :: "yaml \<Rightarrow> TaskPolicy option" where
  "TaskPolicy_of_doc d =
     (case ymap_get ''policy'' d of
        None \<Rightarrow> Some \<lparr>autoparal = 0\<rparr>
      | Some p \<Rightarrow>
          (case ymap_get ''autoparal'' p of
             None \<Rightarrow> Some \<lparr>autoparal = 0\<rparr>
           | Some (YInt a) \<Rightarrow> Some \<lparr>autoparal = a\<rparr>
           | Some _ \<Rightarrow> None))"

text \<open>
  Modelled from the spec: \<^verbatim>\<open>TaskManager.from_dict\<close>, \<^verbatim>\<open>TaskManager.as_dict\<close> and
  \<^verbatim>\<open>TaskManager.from_string\<close> are missing. A manager is read from "a YAML document
  describing a queue-adapter manager", and "malformed YAML surfaces as a parse failure
  propagated to the caller".
\<close>

definition TaskManager_of_doc :: "yaml \<Rightarrow> TaskManager option" where
  "TaskManager_of_doc d =
     do {
       pol \<leftarrow> TaskPolicy_of_doc d;
       docs \<leftarrow> get_seq ''qadapters'' d;
       qs \<leftarrow> those (map QueueAdapter_of_doc docs);
       (case qs of
          [] \<Rightarrow> None
        | q # rest \<Rightarrow> Some \<lparr>policy = pol, qad = q, other_qads = rest\<rparr>)
     }"

definition from_dict :: "yaml \<Rightarrow> exn + TaskManager" where
  "from_dict d = (case TaskManager_of_doc d of None \<Rightarrow> Inl ValueError | Some m \<Rightarrow> Inr m)"

definition as_dict :: "TaskManager \<Rightarrow> yaml" where
  "as_dict m =
     YMap [(''policy'', YMap [(''autoparal'', YInt (autoparal (policy m)))]),
           (''qadapters'', YSeq (map QueueAdapter_as_dict (qads m)))]"

definition from_string :: "(string \<Rightarrow> exn + yaml) \<Rightarrow> string \<Rightarrow> exn + TaskManager" where
  "from_string load s =
     (case yaml_safe_load load s of Inl e \<Rightarrow> Inl e | Inr d \<Rightarrow> from_dict d)"

text \<open>
  Modelled from the spec: \<^verbatim>\<open>TaskManager.to_shell_manager\<close> is missing. "Deriving a
  "shell" manager with an explicit process count overrides the inherited core count
  accordingly, without mutating the original manager object": the result is a new
  object, with no queue and with the given number of processes on its adapters.
  Managers are objects of a store, named by their addresses; \<open>shell_manager\<close> is the
  value of the new object.
\<close>

definition shell_adapter :: "int \<Rightarrow> QueueAdapter \<Rightarrow> QueueAdapter" where
  "shell_adapter n q = q\<lparr>qtype := ''shell'', mpi_procs := n\<rparr>"

definition shell_manager :: "TaskManager \<Rightarrow> int \<Rightarrow> TaskManager" where
  "shell_manager m n =
     m\<lparr>qad := shell_adapter n (qad m), other_qads := map (shell_adapter n) (other_qads m)\<rparr>"

type_synonym store = "TaskManager list"

definition deref :: "store \<Rightarrow> nat \<Rightarrow> TaskManager option" where
  "deref st a = (if a < length st then Some (st ! a) else None)"

definition alloc :: "TaskManager \<Rightarrow> store \<Rightarrow> nat \<times> store" where
  "alloc m st = (length st, st @ [m])"

definition to_shell_manager :: "nat \<Rightarrow> int \<Rightarrow> store \<Rightarrow> (nat \<times> store) option" where
  "to_shell_manager self n st =
     (case deref st self of
        None \<Rightarrow> None
      | Some m \<Rightarrow> Some (alloc (shell_manager m n) st))"

text \<open>
  Modelled from the spec: \<^verbatim>\<open>TaskManager.new_with_fixed_mpi_omp\<close> is missing. "Fixing
  process and thread counts on a manager propagates the product (processes \<open>\<times>\<close>
  threads) as the new minimum-and-maximum core limit on every contained queue
  adapter"; the test reads \<^verbatim>\<open>policy.autoparal == 0\<close> from the result.
\<close>

definition fixed_adapter :: "int \<Rightarrow> int \<Rightarrow> QueueAdapter \<Rightarrow> QueueAdapter" where
  "fixed_adapter p t q =
     q\<lparr>mpi_procs := p, omp_threads := t, min_cores := p * t, max_cores := p * t\<rparr>"

definition new_with_fixed_mpi_omp :: "TaskManager \<Rightarrow> int \<Rightarrow> int \<Rightarrow> TaskManager" where
  "new_with_fixed_mpi_omp m p t =
     \<lparr>policy = \<lparr>autoparal = 0\<rparr>, qad = fixed_adapter p t (qad m),
      other_qads = map (fixed_adapter p t) (other_qads m)\<rparr>"

text \<open>
  The sample of \<^verbatim>\<open>TaskManagerTest\<close>: the text \<^verbatim>\<open>MANAGER\<close> and the document it
  describes. Its comment lines (\<^verbatim>\<open>#policy\<close>, \<^verbatim>\<open>#condition\<close>) describe nothing.
\<close>

definition MANAGER :: string where
  "MANAGER = unlines
     [''#policy:'',
      ''#    autoparal: 1'',
      ''qadapters:'',
      ''    - priority: 1'',
      ''      queue:'',
      ''        qtype: slurm'',
      ''        qname: Oban'',
      ''        qparams:'',
      ''            mail_user: nobody@nowhere'',
      ''      limits:'',
      ''        timelimit: 0:20:00'',
      ''        min_cores: 4'',
      ''        max_cores: 12'',
      ''        #condition: {'' @ [CHR 0x22] @ ''$eq'' @ [CHR 0x22] @ '': {omp_threads: 2}}'',
      ''      hardware:'',
      ''        num_nodes: 10'',
      ''        sockets_per_node: 1'',
      ''        cores_per_socket: 2'',
      ''        mem_per_node: 4 Gb'',
      ''      job:'',
      ''        modules:'',
      ''            - intel/compilerpro/13.0.1.117'',
      ''            - fftw3/intel/3.3'',
      ''        shell_env:'',
      ''            PATH: /home/user/tmp_intel13/src/98_main/:/home/user//NAPS/intel13/bin:$PATH'',
      ''            LD_LIBRARY_PATH: /home/user/NAPS/intel13/lib:$LD_LIBRARY_PATH'',
      ''        mpi_runner: mpirun'']"

definition MANAGER_doc :: yaml where
  "MANAGER_doc =
     YMap [(''qadapters'', YSeq [
       YMap [(''priority'', YInt 1),
             (''queue'', YMap [(''qtype'', YStr ''slurm''), (''qname'', YStr ''Oban''),
                (''qparams'', YMap [(''mail_user'', YStr ''nobody@nowhere'')])]),
             (''limits'', YMap [(''timelimit'', YStr ''0:20:00''), (''min_cores'', YInt 4),
                (''max_cores'', YInt 12)]),
             (''hardware'', YMap [(''num_nodes'', YInt 10), (''sockets_per_node'', YInt 1),
                (''cores_per_socket'', YInt 2), (''mem_per_node'', YStr ''4 Gb'')]),
             (''job'', YMap [
                (''modules'', YSeq [YStr ''intel/compilerpro/13.0.1.117'',
                   YStr ''fftw3/intel/3.3'']),
                (''shell_env'', YMap [
                   (''PATH'', YStr
                     ''/home/user/tmp_intel13/src/98_main/:/home/user//NAPS/intel13/bin:$PATH''),
                   (''LD_LIBRARY_PATH'', YStr
                     ''/home/user/NAPS/intel13/lib:$LD_LIBRARY_PATH'')]),
                (''mpi_runner'', YStr ''mpirun'')])]])]"

section \<open>Parallel hints (\<^verbatim>\<open>abipy.flowtk.tasks\<close>, exercised by \<^verbatim>\<open>test_tasks.py\<close>)\<close>

text \<open>
  Modelled from the spec: the classes \<^verbatim>\<open>ParalConf\<close> and \<^verbatim>\<open>ParalHints\<close> are missing. The
  hints are "a list of numeric configuration samples with fields \<^verbatim>\<open>tot_ncpus\<close>,
  \<^verbatim>\<open>mpi_ncpus\<close>, \<^verbatim>\<open>efficiency\<close>, \<^verbatim>\<open>mem_per_cpu\<close>, and a mapping of solver-specific
  integer variables". The decimal numbers of a document are kept as the rational
  numbers they write.
\<close>

record ParalConf =
  tot_ncpus :: int
  mpi_ncpus :: int
  efficiency :: rat
  mem_per_cpu :: rat
  vars :: "(string \<times> int) list"

record ParalHints =
  info :: yaml
  confs :: "ParalConf list"

definition var_of_doc :: "string \<times> yaml \<Rightarrow> (string \<times> int) option" where
  "var_of_doc kv = (case kv of (k, YInt i) \<Rightarrow> Some (k, i) | _ \<Rightarrow> None)"

definition vars_of_doc :: "yaml \<Rightarrow> (string \<times> int) list option" where
  "vars_of_doc d = (case d of YMap kvs \<Rightarrow> those (map var_of_doc kvs) | _ \<Rightarrow> None)"

definition ParalConf_of_doc :: "yaml \<Rightarrow> ParalConf option" where
  "ParalConf_of_doc d =
     do {
       tot \<leftarrow> get_int ''tot_ncpus'' d;
       mpi \<leftarrow> get_int ''mpi_ncpus'' d;
       eff \<leftarrow> get_num ''efficiency'' d;
       mem \<leftarrow> get_num ''mem_per_cpu'' d;
       vd \<leftarrow> ymap_get ''vars'' d;
       vs \<leftarrow> vars_of_doc vd;
       Some \<lparr>tot_ncpus = tot, mpi_ncpus = mpi, efficiency = eff, mem_per_cpu = mem,
             vars = vs\<rparr>
     }"

text \<open>
  Modelled from the spec: the reader of tagged documents that \<^verbatim>\<open>ParalHintsParser.parse\<close>
  uses is missing. The input is "a YAML document (delimited by a document-start
  marker)": in the text of a file, a document starts at a line that begins with the
  marker \<^verbatim>\<open>---\<close>, the rest of that line being its tag (\<^verbatim>\<open>!Autoparal\<close> in the sample), and
  it ends with the first later line that begins with \<^verbatim>\<open>...\<close>, or with the text. The YAML
  loader of \<^verbatim>\<open>iotools.py\<close> is a safe loader, which knows no such tag, so what it is
  given is the document with its first line reduced to the marker.
\<close>

fun lines_from :: "string \<Rightarrow> string \<Rightarrow> string list" where
  "lines_from cur [] = (if cur = [] then [] else [cur])"
| "lines_from cur (c # cs) =
     (if c = CHR 0x0A then cur # lines_from [] cs else lines_from (cur @ [c]) cs)"

definition split_lines :: "string \<Rightarrow> string list" where
  "split_lines s = lines_from [] s"

definition starts_doc :: "string \<Rightarrow> bool" where
  "starts_doc l = (take 3 l = ''---'')"

definition ends_doc :: "string \<Rightarrow> bool" where
  "ends_doc l = (take 3 l = ''...'')"

definition doc_tag :: "string \<Rightarrow> string" where
  "doc_tag l = strip (drop 3 l)"

fun doc_lines :: "string list \<Rightarrow> string list" where
  "doc_lines [] = []"
| "doc_lines (l # ls) = (if ends_doc l then [l] else l # doc_lines ls)"

fun next_doc_with_tag :: "string \<Rightarrow> string list \<Rightarrow> string list option" where
  "next_doc_with_tag tag [] = None"
| "next_doc_with_tag tag (l # ls) =
     (if starts_doc l \<and> doc_tag l = tag then Some (l # doc_lines ls)
      else next_doc_with_tag tag ls)"

definition text_notag :: "string list \<Rightarrow> string" where
  "text_notag doc = (case doc of [] \<Rightarrow> [] | l # ls \<Rightarrow> unlines (take 3 l # ls))"

text \<open>
  Modelled from the spec: \<^verbatim>\<open>ParalHintsParser.parse\<close> is missing. Its argument is the text
  of the file that the test writes. It takes the first document tagged \<^verbatim>\<open>!Autoparal\<close>,
  loads it and builds the hints from the entries \<^verbatim>\<open>info\<close> and \<^verbatim>\<open>configurations\<close>; a
  text with no such document, the loader's error and a malformed document are
  failures.
\<close>

definition ParalHints_of_doc :: "yaml \<Rightarrow> ParalHints option" where
  "ParalHints_of_doc d =
     do {
       i \<leftarrow> ymap_get ''info'' d;
       docs \<leftarrow> get_seq ''configurations'' d;
       cs \<leftarrow> those (map ParalConf_of_doc docs);
       Some \<lparr>info = i, confs = cs\<rparr>
     }"

definition parse :: "(string \<Rightarrow> exn + yaml) \<Rightarrow> string \<Rightarrow> exn + ParalHints" where
  "parse load text =
     (case next_doc_with_tag ''!Autoparal'' (split_lines text) of
        None \<Rightarrow> Inl ValueError
      | Some doc \<Rightarrow>
          (case yaml_safe_load load (text_notag doc) of
             Inl e \<Rightarrow> Inl e
           | Inr d \<Rightarrow>
               (case ParalHints_of_doc d of None \<Rightarrow> Inl ValueError | Some h \<Rightarrow> Inr h)))"

text \<open>
  Modelled from the spec: the properties \<^verbatim>\<open>max_cores\<close>, \<^verbatim>\<open>max_mem_per_proc\<close>,
  \<^verbatim>\<open>max_speedup\<close> and \<^verbatim>\<open>max_efficiency\<close> of \<^verbatim>\<open>ParalHints\<close> are missing. They are
  "trivial reductions (max value across samples)"; the speedup of a sample is its
  efficiency times its number of cores. Python's \<^verbatim>\<open>max\<close> of no value raises
  \<^verbatim>\<open>ValueError\<close>.
\<close>

definition py_max :: "'a::linorder list \<Rightarrow> exn + 'a" where
  "py_max xs = (case xs of [] \<Rightarrow> Inl ValueError | x # rest \<Rightarrow> Inr (fold max rest x))"

definition speedup :: "ParalConf \<Rightarrow> rat" where
  "speedup c = efficiency c * of_int (tot_ncpus c)"

definition max_cores_of :: "ParalHints \<Rightarrow> exn + int" where
  "max_cores_of h = py_max (map tot_ncpus (confs h))"

definition max_mem_per_proc :: "ParalHints \<Rightarrow> exn + rat" where
  "max_mem_per_proc h = py_max (map mem_per_cpu (confs h))"

definition max_speedup :: "ParalHints \<Rightarrow> exn + rat" where
  "max_speedup h = py_max (map speedup (confs h))"

definition max_efficiency :: "ParalHints \<Rightarrow> exn + rat" where
  "max_efficiency h = py_max (map efficiency (confs h))"

text \<open>
  The sample of \<^verbatim>\<open>ParalHintsTest\<close>: the text \<^verbatim>\<open>s\<close> and the document it describes.
\<close>

definition Autoparal_lines :: "string list" where
  "Autoparal_lines =
     [''--- !Autoparal'',
      ''#Autoparal section for Sigma runs.'',
      ''info:'',
      ''    autoparal: 1'',
      ''    max_ncpus: 4'',
      ''    nkpt: 6'',
      ''    nsppol: 1'',
      ''    nspinor: 1'',
      ''    nbnds: 10'',
      ''configurations:'',
      ''    - tot_ncpus: 1'',
      ''      mpi_ncpus: 1'',
      ''      efficiency:  1.000000000'',
      ''      mem_per_cpu:        11.54'',
      ''      vars: {npfft: 1, npkpt: 1}'',
      ''    - tot_ncpus: 2'',
      ''      mpi_ncpus: 2'',
      ''      efficiency:  1.000000000'',
      ''      mem_per_cpu:         7.42'',
      ''      vars: {npfft: 1, npkpt: 2}'',
      ''    - tot_ncpus: 2'',
      ''      mpi_ncpus: 2'',
      ''      efficiency:  0.100000000'',
      ''      mem_per_cpu:         9.42'',
      ''      vars: {npfft: 2, npkpt: 1}'',
      ''    - tot_ncpus: 3'',
      ''      mpi_ncpus: 3'',
      ''      efficiency:  0.833333333'',
      ''      mem_per_cpu:         6.60'',
      ''      vars: {npfft: 3, npkpt: 1}'',
      ''    - tot_ncpus: 4'',
      ''      mpi_ncpus: 4'',
      ''      efficiency:  0.833333333'',
      ''      mem_per_cpu:         15.77'',
      ''      vars: {npfft: 2, npkpt: 2}'',
      ''...'']"

definition Autoparal_text :: string where
  "Autoparal_text = unlines Autoparal_lines"

text \<open>The sample document as the loader is given it: the marker line without the tag.\<close>

definition Autoparal_notag :: string where
  "Autoparal_notag = unlines (''---'' # tl Autoparal_lines)"

definition conf_doc :: "int \<Rightarrow> int \<Rightarrow> rat \<Rightarrow> rat \<Rightarrow> int \<Rightarrow> int \<Rightarrow> yaml" where
  "conf_doc tot mpi eff mem npfft npkpt =
     YMap [(''tot_ncpus'', YInt tot), (''mpi_ncpus'', YInt mpi), (''efficiency'', YFloat eff),
           (''mem_per_cpu'', YFloat mem),
           (''vars'', YMap [(''npfft'', YInt npfft), (''npkpt'', YInt npkpt)])]"

definition Autoparal_doc :: yaml where
  "Autoparal_doc =
     YMap [(''info'', YMap [(''autoparal'', YInt 1), (''max_ncpus'', YInt 4), (''nkpt'', YInt 6),
              (''nsppol'', YInt 1), (''nspinor'', YInt 1), (''nbnds'', YInt 10)]),
           (''configurations'', YSeq [
              conf_doc 1 1 1.000000000 11.54 1 1,
              conf_doc 2 2 1.000000000 7.42 1 2,
              conf_doc 2 2 0.100000000 9.42 2 1,
              conf_doc 3 3 0.833333333 6.60 3 1,
              conf_doc 4 4 0.833333333 15.77 2 2])]"

section \<open>The yes/no prompt\<close>

lemma loop_None:
  "answers_get ans = None \<Longrightarrow>
   ask_yes_no_loop prompt dflt ans w =
     (case stdin w of
        [] \<Rightarrow> (Blocked, w\<lparr>stdout := stdout w @ [Prompt (prompt @ '' '')]\<rparr>)
      | Line s # rest \<Rightarrow>
          ask_yes_no_loop prompt dflt (if lower s = [] then dflt else Some (lower s))
            (w\<lparr>stdout := stdout w @ [Prompt (prompt @ '' '')], stdin := rest\<rparr>)
      | Interrupt # rest \<Rightarrow>
          ask_yes_no_loop prompt dflt ans
            (w\<lparr>stdout := stdout w @ [Prompt (prompt @ '' '')], stdin := rest\<rparr>)
      | Eof # rest \<Rightarrow>
          (case answers_get dflt of
             Some b \<Rightarrow>
               ask_yes_no_loop prompt dflt dflt
                 (w\<lparr>stdin := rest,
                    stdout := stdout w @ [Prompt (prompt @ '' ''), Print '''']\<rparr>)
           | None \<Rightarrow>
               (Raised EOFError,
                w\<lparr>stdout := stdout w @ [Prompt (prompt @ '' '')], stdin := rest\<rparr>)))"
  by (subst ask_yes_no_loop.simps)
     (simp add: get_input_def split: list.split stdin_event.split option.split)

lemma loop_Some:
  "answers_get ans = Some b \<Longrightarrow> ask_yes_no_loop prompt dflt ans w = (Returned b, w)"
  by (subst ask_yes_no_loop.simps) simp

lemma loop_ans_irrelevant:
  "stdin w = evs \<Longrightarrow> answers_get ans = None \<Longrightarrow> answers_get ans2 = None \<Longrightarrow>
   ask_yes_no_loop prompt dflt ans w = ask_yes_no_loop prompt dflt ans2 w"
proof (induction evs arbitrary: w)
  case Nil
  then show ?case by (simp add: loop_None)
next
  case (Cons e evs)
  show ?case
  proof (cases e)
    case (Line s)
    with Cons.prems show ?thesis by (simp add: loop_None)
  next
    case Interrupt
    have "ask_yes_no_loop prompt dflt ans
            (w\<lparr>stdout := stdout w @ [Prompt (prompt @ '' '')], stdin := evs\<rparr>) =
          ask_yes_no_loop prompt dflt ans2
            (w\<lparr>stdout := stdout w @ [Prompt (prompt @ '' '')], stdin := evs\<rparr>)"
      using Cons.prems(2,3) by (intro Cons.IH) simp_all
    with Cons.prems Interrupt show ?thesis by (simp add: loop_None)
  next
    case Eof
    with Cons.prems show ?thesis by (simp add: loop_None)
  qed
qed


lemma loop_lines:
  "answers_get ans = None \<Longrightarrow>
   \<forall>s\<in>set ss. answers_get (if lower s = [] then dflt else Some (lower s)) = None \<Longrightarrow>
   ask_yes_no_loop prompt dflt ans (w\<lparr>stdin := map Line ss @ rest\<rparr>) =
   ask_yes_no_loop prompt dflt None
     (w\<lparr>stdout := stdout w @ replicate (length ss) (Prompt (prompt @ '' '')), stdin := rest\<rparr>)"
proof (induction ss arbitrary: ans w)
  case Nil
  have "answers_get None = None"
    by (simp add: answers_get_def)
  from loop_ans_irrelevant [OF refl Nil(1) this]
  show ?case by simp
next
  case (Cons s ss)
  define a where "a = (if lower s = [] then dflt else Some (lower s))"
  define w1 where "w1 = w\<lparr>stdout := stdout w @ [Prompt (prompt @ '' '')]\<rparr>"
  have a: "answers_get a = None"
    using Cons.prems(2) by (simp add: a_def)
  have "ask_yes_no_loop prompt dflt ans (w\<lparr>stdin := map Line (s # ss) @ rest\<rparr>) =
        ask_yes_no_loop prompt dflt a (w1\<lparr>stdin := map Line ss @ rest\<rparr>)"
    unfolding a_def w1_def by (simp add: loop_None [OF Cons.prems(1)])
  also have "\<dots> = ask_yes_no_loop prompt dflt None
          (w1\<lparr>stdout := stdout w1 @ replicate (length ss) (Prompt (prompt @ '' '')),
             stdin := rest\<rparr>)"
    using Cons.prems(2) by (intro Cons.IH [OF a]) simp
  also have "\<dots> = ask_yes_no_loop prompt dflt None
          (w\<lparr>stdout := stdout w @ replicate (length (s # ss)) (Prompt (prompt @ '' '')),
             stdin := rest\<rparr>)"
    by (simp add: w1_def)
  finally show ?case .
qed

lemma lower_Maybe: "lower ''Maybe'' = ''maybe''"
  by code_simp

text \<open>
  Claim C6, as stated: \<^verbatim>\<open>ask_yes_no\<close> does not return while the lowercased input is not
  one of y/yes/n/no. It fails on the empty line when the default is an answer: the
  empty string is not one of the four, and the function returns the default's value
  after a single prompt.
\<close>

theorem ask_yes_no_empty_line_counterexample:
  "map_of answers (lower '''') = None \<and>
   ask_yes_no ''Continue?'' (Some ''y'')
     \<lparr>stdin = [Line ''''], procs = [], stdout = [], calls = []\<rparr> =
   (Returned True, \<lparr>stdin = [], procs = [], stdout = [Prompt ''Continue? ''], calls = []\<rparr>)"
proof -
  have y: "answers_get (Some ''y'') = Some True" and n: "answers_get None = None"
    by (simp_all add: answers_get_def answers_def)
  show ?thesis
    by (simp add: ask_yes_no_def loop_None [OF n] loop_Some [OF y] lower_def answers_def)
qed

text \<open>
  Claim C6, amended. The answer read from a line is the lowercased line, or the
  default when the line is empty. For every sequence of lines none of whose answers is
  one of y/yes/n/no, \<^verbatim>\<open>ask_yes_no\<close> prompts once per line and has not returned: what
  follows the lines decides as it would have decided at the start, and when nothing
  follows, the function is waiting at the next prompt. When an \<^verbatim>\<open>EOFError\<close> follows and
  the default is not one of y/yes/n/no (\<^verbatim>\<open>None\<close> included), it raises \<^verbatim>\<open>EOFError\<close>.
\<close>

theorem ask_yes_no_reprompts:
  assumes "\<forall>s\<in>set ss. answers_get (if lower s = [] then dflt else Some (lower s)) = None"
  shows "ask_yes_no prompt dflt (w\<lparr>stdin := map Line ss @ rest\<rparr>) =
           ask_yes_no prompt dflt
             (w\<lparr>stdout := stdout w @ replicate (length ss) (Prompt (prompt @ '' '')),
                stdin := rest\<rparr>) \<and>
         ask_yes_no prompt dflt (w\<lparr>stdin := map Line ss\<rparr>) =
           (Blocked,
            w\<lparr>stdout := stdout w @ replicate (Suc (length ss)) (Prompt (prompt @ '' '')),
              stdin := []\<rparr>) \<and>
         (answers_get dflt = None \<longrightarrow>
            ask_yes_no prompt dflt (w\<lparr>stdin := map Line ss @ Eof # rest\<rparr>) =
              (Raised EOFError,
               w\<lparr>stdout := stdout w @ replicate (Suc (length ss)) (Prompt (prompt @ '' '')),
                 stdin := rest\<rparr>)) \<and>
         (\<forall>b. answers_get dflt = Some b \<longrightarrow>
            ask_yes_no prompt dflt (w\<lparr>stdin := map Line ss @ Line '''' # rest\<rparr>) =
              (Returned b,
               w\<lparr>stdout := stdout w @ replicate (Suc (length ss)) (Prompt (prompt @ '' '')),
                 stdin := rest\<rparr>)) \<and>
         answers_get dflt =
           (if dflt = Some ''y'' \<or> dflt = Some ''yes'' then Some True
            else if dflt = Some ''n'' \<or> dflt = Some ''no'' then Some False
            else None)"
proof -
  have n: "answers_get None = None"
    by (simp add: answers_get_def)
  have lines: "ask_yes_no_loop prompt dflt None (w\<lparr>stdin := map Line ss @ evs\<rparr>) =
      ask_yes_no_loop prompt dflt None
        (w\<lparr>stdout := stdout w @ replicate (length ss) (Prompt (prompt @ '' '')),
           stdin := evs\<rparr>)" for evs
    by (rule loop_lines [OF n assms])
  have more: "replicate (length ss) (Prompt (prompt @ '' '')) @ [Prompt (prompt @ '' '')] =
      replicate (Suc (length ss)) (Prompt (prompt @ '' ''))"
    by (simp add: replicate_append_same)
  show ?thesis
  proof (intro conjI impI allI)
    show "ask_yes_no prompt dflt (w\<lparr>stdin := map Line ss @ rest\<rparr>) =
           ask_yes_no prompt dflt
             (w\<lparr>stdout := stdout w @ replicate (length ss) (Prompt (prompt @ '' '')),
                stdin := rest\<rparr>)"
      using lines [of rest] by (simp add: ask_yes_no_def)
    show "ask_yes_no prompt dflt (w\<lparr>stdin := map Line ss\<rparr>) =
           (Blocked,
            w\<lparr>stdout := stdout w @ replicate (Suc (length ss)) (Prompt (prompt @ '' '')),
              stdin := []\<rparr>)"
      using lines [of "[]"] more by (simp add: ask_yes_no_def loop_None [OF n])
    show "ask_yes_no prompt dflt (w\<lparr>stdin := map Line ss @ Eof # rest\<rparr>) =
              (Raised EOFError,
               w\<lparr>stdout := stdout w @ replicate (Suc (length ss)) (Prompt (prompt @ '' '')),
                 stdin := rest\<rparr>)"
      if "answers_get dflt = None"
      using lines [of "Eof # rest"] more that by (simp add: ask_yes_no_def loop_None [OF n])
    show "ask_yes_no prompt dflt (w\<lparr>stdin := map Line ss @ Line '''' # rest\<rparr>) =
              (Returned b,
               w\<lparr>stdout := stdout w @ replicate (Suc (length ss)) (Prompt (prompt @ '' '')),
                 stdin := rest\<rparr>)"
      if "answers_get dflt = Some b" for b
      using lines [of "Line '''' # rest"] more
      by (simp add: ask_yes_no_def loop_None [OF n] loop_Some [OF that] lower_def)
    show "answers_get dflt =
           (if dflt = Some ''y'' \<or> dflt = Some ''yes'' then Some True
            else if dflt = Some ''n'' \<or> dflt = Some ''no'' then Some False
            else None)"
      by (cases dflt) (auto simp: answers_get_def answers_def)
  qed
qed

theorem ask_yes_no_reprompts_witness:
  "ask_yes_no ''Continue?'' None
     \<lparr>stdin = [Line '''', Line ''Maybe''], procs = [], stdout = [], calls = []\<rparr> =
     (Blocked,
      \<lparr>stdin = [], procs = [],
         stdout = [Prompt ''Continue? '', Prompt ''Continue? '', Prompt ''Continue? ''],
         calls = []\<rparr>) \<and>
   ask_yes_no ''Continue?'' None
     \<lparr>stdin = [Line '''', Line ''Maybe'', Eof, Line ''y''], procs = [], stdout = [],
        calls = []\<rparr> =
     (Raised EOFError,
      \<lparr>stdin = [Line ''y''], procs = [],
         stdout = [Prompt ''Continue? '', Prompt ''Continue? '', Prompt ''Continue? ''],
         calls = []\<rparr>) \<and>
   ask_yes_no ''Continue?'' (Some ''n'')
     \<lparr>stdin = [Line ''Maybe'', Line '''', Line ''y''], procs = [], stdout = [],
        calls = []\<rparr> =
     (Returned False,
      \<lparr>stdin = [Line ''y''], procs = [],
         stdout = [Prompt ''Continue? '', Prompt ''Continue? ''], calls = []\<rparr>)"
proof -
  have h: "\<forall>s\<in>set ['''', ''Maybe''].
      answers_get (if lower s = [] then None else Some (lower s)) = None"
    by (simp add: lower_Maybe answers_get_def answers_def) (simp add: lower_def)
  have h2: "\<forall>s\<in>set [''Maybe''].
      answers_get (if lower s = [] then Some ''n'' else Some (lower s)) = None"
    by (simp add: lower_Maybe answers_get_def answers_def)
  have n: "answers_get (Some ''n'') = Some False"
    by (simp add: answers_get_def answers_def)
  from ask_yes_no_reprompts [OF h, where prompt = "''Continue?''"
      and w = "\<lparr>stdin = [], procs = [], stdout = [], calls = []\<rparr>" and rest = "[Line ''y'']"]
    ask_yes_no_reprompts [OF h2, where prompt = "''Continue?''"
      and w = "\<lparr>stdin = [], procs = [], stdout = [], calls = []\<rparr>" and rest = "[Line ''y'']"]
  show ?thesis
    by (simp add: n answers_get_def numeral_3_eq_3 numeral_2_eq_2)
qed

section \<open>The editor helper\<close>

lemma str_int_1: "str_int 1 = ''1''"
  by code_simp

lemma edit_file_world:
  "edit_file self fname w = (res, w1) \<Longrightarrow>
   calls w1 = calls w @ [[editor self, fname]] \<and> stdin w1 = stdin w \<and> procs w1 = tl (procs w)"
  by (auto simp: edit_file_def call_def cprint_def Let_def
      split: list.splits call_result.splits if_splits)

lemma edit_file_Exit:
  "procs w = Exit c # ps \<Longrightarrow>
   \<exists>w1. edit_file self fname w = (Returned c, w1) \<and> procs w1 = ps \<and> stdin w1 = stdin w"
  by (simp add: edit_file_def call_def cprint_def)

text \<open>
  Claim C7. Whenever the editor process exits with a return code other than zero,
  \<^verbatim>\<open>Editor.edit_file\<close> writes the warning \<^verbatim>\<open>Retcode <code> while editing file: <name>\<close>
  in red and returns that code: the outcome is \<open>Returned\<close>, never \<open>Raised\<close>. The call
  is the one of the editor on the file, and nothing else of the world changes.
\<close>

theorem edit_file_nonzero_retcode:
  "procs w = Exit retcode # rest \<Longrightarrow> retcode \<noteq> 0 \<Longrightarrow>
   edit_file self fname w =
     (Returned retcode,
      w\<lparr>procs := rest, calls := calls w @ [[editor self, fname]],
        stdout := stdout w @
          [Cprint (''Retcode '' @ str_int retcode @ '' while editing file: '' @ fname) ''red'']\<rparr>)"
  by (simp add: edit_file_def call_def cprint_def)

theorem edit_file_nonzero_retcode_witness:
  "edit_file \<lparr>editor = ''vi''\<rparr> ''run.abi''
     \<lparr>stdin = [], procs = [Exit 1], stdout = [], calls = []\<rparr> =
   (Returned 1,
    \<lparr>stdin = [], procs = [], stdout = [Cprint ''Retcode 1 while editing file: run.abi'' ''red''],
       calls = [[''vi'', ''run.abi'']]\<rparr>)"
  using edit_file_nonzero_retcode [of "\<lparr>stdin = [], procs = [Exit 1], stdout = [], calls = []\<rparr>"
      1 "[]" "\<lparr>editor = ''vi''\<rparr>" "''run.abi''"]
  by (simp add: str_int_1)

text \<open>
  Claim C8. An \<^verbatim>\<open>Editor\<close> made with \<^verbatim>\<open>editor=None\<close> is named by the environment variable
  \<^verbatim>\<open>EDITOR\<close>, and \<^verbatim>\<open>vi\<close> when the variable is not set. \<^verbatim>\<open>edit_file\<close> calls the process
  of that name on the file, and when the process exits, its exit status is what
  \<^verbatim>\<open>edit_file\<close> returns.
\<close>

theorem Editor_default_and_exit_status:
  "editor (Editor_init env None) = (case env ''EDITOR'' of None \<Rightarrow> ''vi'' | Some name \<Rightarrow> name) \<and>
   calls (snd (edit_file (Editor_init env None) fname w)) =
     calls w @ [[editor (Editor_init env None), fname]] \<and>
   (procs w = Exit retcode # rest \<longrightarrow>
      fst (edit_file (Editor_init env None) fname w) = Returned retcode)"
proof (intro conjI impI)
  show "editor (Editor_init env None) = (case env ''EDITOR'' of None \<Rightarrow> ''vi'' | Some name \<Rightarrow> name)"
    by (simp add: Editor_init_def getenv_def DEFAULT_EDITOR_def)
  show "calls (snd (edit_file (Editor_init env None) fname w)) =
     calls w @ [[editor (Editor_init env None), fname]]"
    using edit_file_world [of "Editor_init env None" fname w] by (simp add: prod_eq_iff)
  show "fst (edit_file (Editor_init env None) fname w) = Returned retcode"
    if "procs w = Exit retcode # rest"
    using edit_file_Exit [OF that, of "Editor_init env None" fname] by auto
qed

theorem Editor_default_and_exit_status_witness:
  "editor (Editor_init (Map.empty(''EDITOR'' \<mapsto> ''nano'')) None) = ''nano'' \<and>
   editor (Editor_init Map.empty None) = ''vi'' \<and>
   calls (snd (edit_file (Editor_init Map.empty None) ''run.abi''
      \<lparr>stdin = [], procs = [Exit 3], stdout = [], calls = []\<rparr>)) = [[''vi'', ''run.abi'']] \<and>
   fst (edit_file (Editor_init Map.empty None) ''run.abi''
      \<lparr>stdin = [], procs = [Exit 3], stdout = [], calls = []\<rparr>) = Returned 3"
  using Editor_default_and_exit_status [of "Map.empty(''EDITOR'' \<mapsto> ''nano'')"]
    Editor_default_and_exit_status [of Map.empty "''run.abi''"
      "\<lparr>stdin = [], procs = [Exit 3], stdout = [], calls = []\<rparr>" 3 "[]"]
  by simp

lemma edit_file_Returned:
  "edit_file self fname w = (Returned r, w1) \<Longrightarrow> procs w \<noteq> [] \<and> hd (procs w) = Exit r"
  by (auto simp: edit_file_def call_def cprint_def Let_def
      split: list.splits call_result.splits if_splits)

lemma user_wants_to_exit_world:
  "user_wants_to_exit w = (res, w1) \<Longrightarrow> calls w1 = calls w \<and> procs w1 = procs w"
  by (auto simp: user_wants_to_exit_def get_input_def Let_def
      split: list.splits stdin_event.splits if_splits)

lemma user_wants_to_exit_Returned:
  "user_wants_to_exit w = (Returned b, w1) \<Longrightarrow> \<exists>e. stdin w = e # stdin w1 \<and> b = stops e"
  by (auto simp: user_wants_to_exit_def get_input_def Let_def stops_def
      split: list.splits stdin_event.splits if_splits)

lemma loop_step:
  assumes "edit_files_loop self ask n idx (fname # rest) w = (res, w')"
  shows "(calls w' = calls w @ [[editor self, fname]] \<and>
          (\<forall>r. res = Returned r \<longrightarrow> procs w \<noteq> [] \<and>
             (if r = 0 then hd (procs w) = Exit 0 \<and> ask \<and> (\<exists>e. stdin w = e # stdin w' \<and> stops e)
              else hd (procs w) = Exit r))) \<or>
         (\<exists>w1. procs w \<noteq> [] \<and> hd (procs w) = Exit 0 \<and>
            calls w1 = calls w @ [[editor self, fname]] \<and> procs w1 = tl (procs w) \<and>
            (stdin w1 = stdin w \<or> (ask \<and> (\<exists>e. stdin w = e # stdin w1 \<and> \<not> stops e))) \<and>
            edit_files_loop self ask n (Suc idx) rest w1 = (res, w'))"
proof (cases "edit_file self fname w")
  case (Pair r0 w1)
  note ef = edit_file_world [OF Pair]
  show ?thesis
  proof (cases r0)
    case (Returned c)
    note hd = edit_file_Returned [OF Pair [unfolded Returned]]
    show ?thesis
    proof (cases "c = 0")
      case False
      with assms Pair Returned ef hd show ?thesis by auto
    next
      case True
      show ?thesis
      proof (cases "ask \<and> int idx \<noteq> n - 1")
        case False
        with assms Pair Returned True ef hd show ?thesis by auto
      next
        case ask: True
        obtain r2 w2 where u: "user_wants_to_exit w1 = (r2, w2)"
          by (cases "user_wants_to_exit w1")
        note uw = user_wants_to_exit_world [OF u]
        show ?thesis
        proof (cases r2)
          case (Returned b)
          from user_wants_to_exit_Returned [OF u [unfolded Returned]]
          obtain e where e: "stdin w1 = e # stdin w2" "b = stops e" by blast
          show ?thesis
          proof (cases b)
            case True
            with assms Pair \<open>r0 = Returned c\<close> \<open>c = 0\<close> ask u Returned e ef hd uw
            show ?thesis by auto
          next
            case False
            have "edit_files_loop self ask n (Suc idx) rest w2 = (res, w')"
              using assms Pair \<open>r0 = Returned c\<close> \<open>c = 0\<close> ask u Returned False by simp
            then show ?thesis
              using ef hd uw e ask False \<open>c = 0\<close> by (intro disjI2 exI [of _ w2]) auto
          qed
        next
          case (Raised x)
          with assms Pair \<open>r0 = Returned c\<close> \<open>c = 0\<close> ask u ef uw show ?thesis by auto
        next
          case Blocked
          with assms Pair \<open>r0 = Returned c\<close> \<open>c = 0\<close> ask u ef uw show ?thesis by auto
        qed
      qed
    qed
  next
    case (Raised x)
    with assms Pair ef show ?thesis by auto
  next
    case Blocked
    with assms Pair ef show ?thesis by auto
  qed
qed


lemma loop_char:
  "edit_files_loop self ask n idx fs w = (res, w') \<Longrightarrow>
   \<exists>k\<le>length fs.
     calls w' = calls w @ map (\<lambda>f. [editor self, f]) (take k fs) \<and>
     (\<forall>r. res = Returned r \<longrightarrow>
        k \<le> length (procs w) \<and>
        (r = 0 \<longrightarrow> (\<forall>j<k. procs w ! j = Exit 0) \<and>
           (k < length fs \<longrightarrow> ask \<and> (\<exists>pre e. stdin w = pre @ e # stdin w' \<and> stops e))) \<and>
        (r \<noteq> 0 \<longrightarrow> 0 < k \<and> procs w ! (k - 1) = Exit r \<and> (\<forall>j<k - 1. procs w ! j = Exit 0)))"
proof (induction fs arbitrary: idx w)
  case Nil
  then show ?case by auto
next
  case (Cons fname rest)
  from loop_step [OF Cons.prems]
  consider
    (stop) "calls w' = calls w @ [[editor self, fname]]"
      "\<forall>r. res = Returned r \<longrightarrow> procs w \<noteq> [] \<and>
         (if r = 0 then hd (procs w) = Exit 0 \<and> ask \<and> (\<exists>e. stdin w = e # stdin w' \<and> stops e)
          else hd (procs w) = Exit r)"
  | (go) w1 where "procs w \<noteq> []" "hd (procs w) = Exit 0"
      "calls w1 = calls w @ [[editor self, fname]]" "procs w1 = tl (procs w)"
      "stdin w1 = stdin w \<or> (ask \<and> (\<exists>e. stdin w = e # stdin w1 \<and> \<not> stops e))"
      "edit_files_loop self ask n (Suc idx) rest w1 = (res, w')"
    by blast
  then show ?case
  proof cases
    case stop
    have c: "calls w' = calls w @ map (\<lambda>f. [editor self, f]) (take 1 (fname # rest))"
      using stop(1) by simp
    have r: "1 \<le> length (procs w) \<and>
        (r = 0 \<longrightarrow> (\<forall>j<1. procs w ! j = Exit 0) \<and>
           (1 < length (fname # rest) \<longrightarrow>
              ask \<and> (\<exists>pre e. stdin w = pre @ e # stdin w' \<and> stops e))) \<and>
        (r \<noteq> 0 \<longrightarrow> 0 < (1::nat) \<and> procs w ! (1 - 1) = Exit r \<and>
           (\<forall>j<1 - 1. procs w ! j = Exit 0))"
      if "res = Returned r" for r
    proof (cases "r = 0")
      case True
      with that stop(2) have *: "procs w \<noteq> []" "hd (procs w) = Exit 0" "ask"
        "\<exists>e. stdin w = e # stdin w' \<and> stops e"
        by auto
      from *(4) obtain e where "stdin w = [] @ e # stdin w'" "stops e" by auto
      then have "\<exists>pre e. stdin w = pre @ e # stdin w' \<and> stops e" by blast
      with * True show ?thesis
        by (cases "procs w") auto
    next
      case False
      with that stop(2) have *: "procs w \<noteq> []" "hd (procs w) = Exit r" by auto
      with False show ?thesis
        by (cases "procs w") auto
    qed
    show ?thesis
      using c r by (intro exI [of _ 1]) simp
  next
    case go
    from Cons.IH [OF go(6)] obtain k where k: "k \<le> length rest"
      "calls w' = calls w1 @ map (\<lambda>f. [editor self, f]) (take k rest)"
      "\<forall>r. res = Returned r \<longrightarrow>
        k \<le> length (procs w1) \<and>
        (r = 0 \<longrightarrow> (\<forall>j<k. procs w1 ! j = Exit 0) \<and>
           (k < length rest \<longrightarrow> ask \<and> (\<exists>pre e. stdin w1 = pre @ e # stdin w' \<and> stops e))) \<and>
        (r \<noteq> 0 \<longrightarrow> 0 < k \<and> procs w1 ! (k - 1) = Exit r \<and> (\<forall>j<k - 1. procs w1 ! j = Exit 0))"
      by blast
    obtain p ps where ps: "procs w = p # ps"
      using go(1) by (cases "procs w") auto
    have p: "p = Exit 0" "procs w1 = ps"
      using go(2,4) ps by auto
    have pre: "\<exists>pre e. stdin w = pre @ e # stdin w' \<and> stops e"
      if "\<exists>pre e. stdin w1 = pre @ e # stdin w' \<and> stops e"
    proof -
      from that obtain pre e where e: "stdin w1 = pre @ e # stdin w'" "stops e" by blast
      from go(5) show ?thesis
      proof
        assume "stdin w1 = stdin w"
        with e show ?thesis by metis
      next
        assume "ask \<and> (\<exists>e. stdin w = e # stdin w1 \<and> \<not> stops e)"
        then obtain e0 where "stdin w = e0 # stdin w1" by blast
        with e have "stdin w = (e0 # pre) @ e # stdin w'" by simp
        with e(2) show ?thesis by blast
      qed
    qed
    have nth0: "\<forall>j<Suc m. (p # ps) ! j = Exit 0" if "\<forall>j<m. ps ! j = Exit 0" for m
      using p(1) that by (simp add: nth_Cons split: nat.splits)
    have c: "calls w' = calls w @ map (\<lambda>f. [editor self, f]) (take (Suc k) (fname # rest))"
      using k(2) go(3) by simp
    have r: "Suc k \<le> length (procs w) \<and>
        (r = 0 \<longrightarrow> (\<forall>j<Suc k. procs w ! j = Exit 0) \<and>
           (Suc k < length (fname # rest) \<longrightarrow>
              ask \<and> (\<exists>pre e. stdin w = pre @ e # stdin w' \<and> stops e))) \<and>
        (r \<noteq> 0 \<longrightarrow> 0 < Suc k \<and> procs w ! (Suc k - 1) = Exit r \<and>
           (\<forall>j<Suc k - 1. procs w ! j = Exit 0))"
      if res: "res = Returned r" for r
    proof (cases "r = 0")
      case True
      with k(3) res p(2) have *: "k \<le> length ps" "\<forall>j<k. ps ! j = Exit 0"
        "k < length rest \<longrightarrow> ask \<and> (\<exists>pre e. stdin w1 = pre @ e # stdin w' \<and> stops e)"
        by simp_all
      from nth0 [OF *(2)] have "\<forall>j<Suc k. procs w ! j = Exit 0" using ps by simp
      moreover have "Suc k < length (fname # rest) \<longrightarrow>
          ask \<and> (\<exists>pre e. stdin w = pre @ e # stdin w' \<and> stops e)"
        using *(3) pre by auto
      ultimately show ?thesis using True *(1) ps by simp
    next
      case False
      with k(3) res p(2) have *: "k \<le> length ps" "0 < k" "ps ! (k - 1) = Exit r"
        "\<forall>j<k - 1. ps ! j = Exit 0"
        by simp_all
      from *(2) obtain k' where k': "k = Suc k'" by (cases k) auto
      from nth0 [OF *(4)] have "\<forall>j<k. procs w ! j = Exit 0" using ps k' by simp
      moreover have "procs w ! k = Exit r" using *(3) ps k' by simp
      ultimately show ?thesis using False *(1) ps by simp
    qed
    show ?thesis
      using c r k(1) by (intro exI [of _ "Suc k"]) simp
  qed
qed


lemma user_wants_to_exit_answers:
  "stdin w = e # es \<Longrightarrow> e \<noteq> Interrupt \<Longrightarrow>
   \<exists>b w2. user_wants_to_exit w = (Returned b, w2) \<and> stdin w2 = es \<and> procs w2 = procs w"
  by (cases e) (auto simp: user_wants_to_exit_def get_input_def)

lemma loop_returns:
  "length fs \<le> length (procs w) \<Longrightarrow> CallFails \<notin> set (procs w) \<Longrightarrow>
   (ask \<longrightarrow> length fs \<le> length (stdin w)) \<Longrightarrow> Interrupt \<notin> set (stdin w) \<Longrightarrow>
   \<exists>r w'. edit_files_loop self ask n idx fs w = (Returned r, w')"
proof (induction fs arbitrary: idx w)
  case Nil
  then show ?case by simp
next
  case (Cons fname rest)
  from Cons.prems(1,2) obtain c ps where ps: "procs w = Exit c # ps"
    by (cases "procs w"; cases "hd (procs w)") auto
  from edit_file_Exit [OF ps] obtain w1 where
    w1: "edit_file self fname w = (Returned c, w1)" "procs w1 = ps" "stdin w1 = stdin w"
    by blast
  have ps': "length rest \<le> length ps" "CallFails \<notin> set ps"
    using Cons.prems(1,2) ps by auto
  show ?case
  proof (cases "c = 0")
    case False
    with w1 show ?thesis by simp
  next
    case True
    show ?thesis
    proof (cases "ask \<and> int idx \<noteq> n - 1")
      case False
      have "\<exists>r w'. edit_files_loop self ask n (Suc idx) rest w1 = (Returned r, w')"
        using Cons.prems ps' w1 by (intro Cons.IH) auto
      with w1 True False show ?thesis by auto
    next
      case ask: True
      with Cons.prems(3) obtain e es where es: "stdin w = e # es"
        by (cases "stdin w") auto
      with Cons.prems(4) have e: "e \<noteq> Interrupt" "Interrupt \<notin> set es" by auto
      from user_wants_to_exit_answers [of w1 e es] es e(1) w1(3) obtain b w2 where
        w2: "user_wants_to_exit w1 = (Returned b, w2)" "stdin w2 = es" "procs w2 = procs w1"
        by auto
      show ?thesis
      proof (cases b)
        case True
        with w1 \<open>c = 0\<close> ask w2 show ?thesis by simp
      next
        case False
        have "\<exists>r w'. edit_files_loop self ask n (Suc idx) rest w2 = (Returned r, w')"
          using Cons.prems ps' w1 w2 e es by (intro Cons.IH) auto
        with w1 \<open>c = 0\<close> ask w2 False show ?thesis by simp
      qed
    qed
  qed
qed

lemma edit_file_succeeds:
  "procs w = Exit c # ps \<Longrightarrow>
   \<exists>w1. edit_file self fname w = (Returned c, w1) \<and>
        calls w1 = calls w @ [[editor self, fname]] \<and> procs w1 = ps \<and> stdin w1 = stdin w"
proof -
  assume p: "procs w = Exit c # ps"
  from edit_file_Exit [OF p] obtain w1 where
    w1: "edit_file self fname w = (Returned c, w1)" "procs w1 = ps" "stdin w1 = stdin w"
    by blast
  from edit_file_world [OF w1(1)] w1 show ?thesis by simp
qed

lemma user_wants_to_exit_decides:
  "stdin w = e # es \<Longrightarrow> e \<noteq> Interrupt \<Longrightarrow>
   \<exists>w2. user_wants_to_exit w = (Returned (stops e), w2) \<and>
        stdin w2 = es \<and> procs w2 = procs w \<and> calls w2 = calls w"
proof -
  assume e: "stdin w = e # es" "e \<noteq> Interrupt"
  from user_wants_to_exit_answers [OF e] obtain b w2 where
    w2: "user_wants_to_exit w = (Returned b, w2)" "stdin w2 = es" "procs w2 = procs w"
    by blast
  from user_wants_to_exit_Returned [OF w2(1)] e(1) w2(2) have "b = stops e" by simp
  with w2 user_wants_to_exit_world [OF w2(1)] show ?thesis by simp
qed

lemma stops_not_Interrupt: "stops e \<Longrightarrow> e \<noteq> Interrupt"
  by (auto simp: stops_def)

lemma loop_fails_now:
  assumes "procs w = Exit r # ps" "r \<noteq> 0"
  shows "\<exists>w'. edit_files_loop self ask n idx (fname # rest) w = (Returned r, w') \<and>
              calls w' = calls w @ [[editor self, fname]]"
proof -
  from edit_file_succeeds [OF assms(1)] obtain w1 where
    "edit_file self fname w = (Returned r, w1)" "calls w1 = calls w @ [[editor self, fname]]"
    by blast
  with assms(2) show ?thesis by simp
qed

lemma loop_stops_now:
  assumes "procs w = Exit 0 # ps" "ask" "int idx \<noteq> n - 1" "stdin w = e # es" "stops e"
  shows "\<exists>w'. edit_files_loop self ask n idx (fname # rest) w = (Returned 0, w') \<and>
              calls w' = calls w @ [[editor self, fname]]"
proof -
  from edit_file_succeeds [OF assms(1)] obtain w1 where
    w1: "edit_file self fname w = (Returned 0, w1)"
      "calls w1 = calls w @ [[editor self, fname]]" "stdin w1 = stdin w"
    by blast
  from assms(4) w1(3) have "stdin w1 = e # es" by simp
  from user_wants_to_exit_decides [OF this stops_not_Interrupt [OF assms(5)]] assms(5)
  obtain w2 where "user_wants_to_exit w1 = (Returned True, w2)" "calls w2 = calls w1"
    by auto
  with w1 assms(2,3) show ?thesis by simp
qed

lemma loop_last_file:
  assumes "procs w = Exit 0 # ps"
    "ask \<and> int idx \<noteq> n - 1 \<longrightarrow> stdin w \<noteq> [] \<and> hd (stdin w) \<noteq> Interrupt"
  shows "\<exists>w'. edit_files_loop self ask n idx [fname] w = (Returned 0, w') \<and>
              calls w' = calls w @ [[editor self, fname]]"
proof -
  from edit_file_succeeds [OF assms(1)] obtain w1 where
    w1: "edit_file self fname w = (Returned 0, w1)"
      "calls w1 = calls w @ [[editor self, fname]]" "stdin w1 = stdin w"
    by blast
  show ?thesis
  proof (cases "ask \<and> int idx \<noteq> n - 1")
    case False
    with w1 show ?thesis by auto
  next
    case True
    with assms(2) w1(3) obtain e es where e: "stdin w1 = e # es" "e \<noteq> Interrupt"
      by (cases "stdin w") auto
    from user_wants_to_exit_decides [OF e] obtain w2 where
      "user_wants_to_exit w1 = (Returned (stops e), w2)" "calls w2 = calls w1"
      by blast
    with w1 True show ?thesis by simp
  qed
qed

lemma loop_prefix:
  assumes "i \<le> length fs"
    "\<forall>j<i. j < length (procs w) \<and> procs w ! j = Exit 0"
    "\<forall>j<i. (ask \<and> int (idx + j) \<noteq> n - 1) = a"
    "a \<longrightarrow> (\<forall>j<i. j < length (stdin w) \<and> \<not> stops (stdin w ! j) \<and> stdin w ! j \<noteq> Interrupt)"
  shows "\<exists>w1. edit_files_loop self ask n idx fs w =
                edit_files_loop self ask n (idx + i) (drop i fs) w1 \<and>
              calls w1 = calls w @ map (\<lambda>f. [editor self, f]) (take i fs) \<and>
              procs w1 = drop i (procs w) \<and>
              stdin w1 = (if a then drop i (stdin w) else stdin w)"
  using assms
proof (induction i arbitrary: fs idx w)
  case 0
  show ?case by (intro exI [of _ w]) simp
next
  case (Suc i)
  from Suc.prems(1) obtain fname rest where fs: "fs = fname # rest" "i \<le> length rest"
    by (cases fs) auto
  from Suc.prems(2) obtain ps where ps: "procs w = Exit 0 # ps"
    by (cases "procs w") (auto dest: spec [of _ 0])
  from edit_file_succeeds [OF ps] obtain wa where
    wa: "edit_file self fname w = (Returned 0, wa)"
      "calls wa = calls w @ [[editor self, fname]]" "procs wa = ps" "stdin wa = stdin w"
    by blast
  from Suc.prems(3) have asked: "(ask \<and> int idx \<noteq> n - 1) = a"
    by (auto dest: spec [of _ 0])
  have procs_rest: "\<forall>j<i. j < length ps \<and> ps ! j = Exit 0"
  proof (intro allI impI)
    fix j assume "j < i"
    then have "Suc j < Suc i" by simp
    with Suc.prems(2) have "Suc j < length (procs w) \<and> procs w ! Suc j = Exit 0" by blast
    with ps show "j < length ps \<and> ps ! j = Exit 0" by simp
  qed
  have asked_rest: "\<forall>j<i. (ask \<and> int (Suc idx + j) \<noteq> n - 1) = a"
  proof (intro allI impI)
    fix j assume "j < i"
    then have "Suc j < Suc i" by simp
    with Suc.prems(3) have "(ask \<and> int (idx + Suc j) \<noteq> n - 1) = a" by blast
    then show "(ask \<and> int (Suc idx + j) \<noteq> n - 1) = a" by simp
  qed
  show ?case
  proof (cases a)
    case False
    with asked wa have step: "edit_files_loop self ask n idx fs w =
        edit_files_loop self ask n (Suc idx) rest wa"
      by (auto simp: fs(1))
    from Suc.IH [OF fs(2), of wa "Suc idx"] procs_rest asked_rest wa(3) False
    obtain w1 where w1: "edit_files_loop self ask n (Suc idx) rest wa =
        edit_files_loop self ask n (Suc idx + i) (drop i rest) w1"
      "calls w1 = calls wa @ map (\<lambda>f. [editor self, f]) (take i rest)"
      "procs w1 = drop i (procs wa)" "stdin w1 = stdin wa"
      by auto
    with step wa ps False show ?thesis
      by (intro exI [of _ w1]) (simp add: fs(1))
  next
    case True
    with Suc.prems(4) have "0 < length (stdin w) \<and> \<not> stops (stdin w ! 0) \<and>
        stdin w ! 0 \<noteq> Interrupt"
      by (auto dest: spec [of _ 0])
    then obtain e es where e: "stdin w = e # es" "\<not> stops e" "e \<noteq> Interrupt"
      by (cases "stdin w") auto
    with wa(4) have "stdin wa = e # es" by simp
    from user_wants_to_exit_decides [OF this e(3)] e(2) obtain wb where
      wb: "user_wants_to_exit wa = (Returned False, wb)" "stdin wb = es"
        "procs wb = procs wa" "calls wb = calls wa"
      by auto
    from asked True wa wb have step: "edit_files_loop self ask n idx fs w =
        edit_files_loop self ask n (Suc idx) rest wb"
      by (simp add: fs(1))
    have stdin_rest: "a \<longrightarrow>
        (\<forall>j<i. j < length (stdin wb) \<and> \<not> stops (stdin wb ! j) \<and> stdin wb ! j \<noteq> Interrupt)"
    proof (intro allI impI)
      fix j assume "a" "j < i"
      then have "Suc j < Suc i" by simp
      with Suc.prems(4) \<open>a\<close> have "Suc j < length (stdin w) \<and> \<not> stops (stdin w ! Suc j) \<and>
          stdin w ! Suc j \<noteq> Interrupt"
        by blast
      with e(1) wb(2) show "j < length (stdin wb) \<and> \<not> stops (stdin wb ! j) \<and>
          stdin wb ! j \<noteq> Interrupt"
        by simp
    qed
    have "\<forall>j<i. j < length (procs wb) \<and> procs wb ! j = Exit 0"
      using procs_rest wb(3) wa(3) by simp
    from Suc.IH [OF fs(2) this asked_rest stdin_rest]
    obtain w1 where w1: "edit_files_loop self ask n (Suc idx) rest wb =
        edit_files_loop self ask n (Suc idx + i) (drop i rest) w1"
      "calls w1 = calls wb @ map (\<lambda>f. [editor self, f]) (take i rest)"
      "procs w1 = drop i (procs wb)" "stdin w1 = (if a then drop i (stdin wb) else stdin wb)"
      by blast
    with step wa wb ps e(1) True show ?thesis
      by (intro exI [of _ w1]) (simp add: fs(1))
  qed
qed

lemma loop_prefix_then:
  assumes "i < length fs"
    "\<forall>j<i. j < length (procs w) \<and> procs w ! j = Exit 0"
    "\<forall>j. Suc j < length fs \<longrightarrow> int j \<noteq> n - 1"
    "ask \<longrightarrow> (\<forall>j<i. j < length (stdin w) \<and> \<not> stops (stdin w ! j) \<and> stdin w ! j \<noteq> Interrupt)"
  shows "\<exists>w1. edit_files_loop self ask n 0 fs w =
                edit_files_loop self ask n i (fs ! i # drop (Suc i) fs) w1 \<and>
              calls w1 = calls w @ map (\<lambda>f. [editor self, f]) (take i fs) \<and>
              procs w1 = drop i (procs w) \<and>
              stdin w1 = (if ask then drop i (stdin w) else stdin w)"
proof -
  have asked: "\<forall>j<i. (ask \<and> int (0 + j) \<noteq> n - 1) = ask"
    using assms(1,3) by auto
  from assms(1) have le: "i \<le> length fs" by simp
  from loop_prefix [OF le assms(2) asked assms(4), of self]
  show ?thesis
    using assms(1) by (simp add: Cons_nth_drop_Suc)
qed

lemma loop_first_failure:
  assumes "i < length fs"
    "\<forall>j<i. j < length (procs w) \<and> procs w ! j = Exit 0"
    "i < length (procs w)" "procs w ! i = Exit r" "r \<noteq> 0"
    "\<forall>j. Suc j < length fs \<longrightarrow> int j \<noteq> n - 1"
    "ask \<longrightarrow> (\<forall>j<i. j < length (stdin w) \<and> \<not> stops (stdin w ! j) \<and> stdin w ! j \<noteq> Interrupt)"
  shows "\<exists>w'. edit_files_loop self ask n 0 fs w = (Returned r, w') \<and>
              calls w' = calls w @ map (\<lambda>f. [editor self, f]) (take (Suc i) fs)"
proof -
  from loop_prefix_then [OF assms(1,2,6,7), of self] obtain w1 where
    w1: "edit_files_loop self ask n 0 fs w =
           edit_files_loop self ask n i (fs ! i # drop (Suc i) fs) w1"
      "calls w1 = calls w @ map (\<lambda>f. [editor self, f]) (take i fs)"
      "procs w1 = drop i (procs w)"
    by blast
  from assms(3) have "drop i (procs w) = procs w ! i # drop (Suc i) (procs w)"
    by (simp add: Cons_nth_drop_Suc)
  with w1(3) assms(4) have "procs w1 = Exit r # drop (Suc i) (procs w)"
    by simp
  from loop_fails_now [OF this assms(5), of self ask n i "fs ! i" "drop (Suc i) fs"]
  obtain w' where "edit_files_loop self ask n i (fs ! i # drop (Suc i) fs) w1 = (Returned r, w')"
    "calls w' = calls w1 @ [[editor self, fs ! i]]"
    by blast
  with w1 assms(1) show ?thesis
    by (intro exI [of _ w']) (simp add: take_Suc_conv_app_nth)
qed

lemma loop_first_stop:
  assumes "i < length fs"
    "\<forall>j\<le>i. j < length (procs w) \<and> procs w ! j = Exit 0"
    "ask" "int i \<noteq> n - 1"
    "\<forall>j<i. j < length (stdin w) \<and> \<not> stops (stdin w ! j) \<and> stdin w ! j \<noteq> Interrupt"
    "i < length (stdin w)" "stops (stdin w ! i)"
    "\<forall>j. Suc j < length fs \<longrightarrow> int j \<noteq> n - 1"
  shows "\<exists>w'. edit_files_loop self ask n 0 fs w = (Returned 0, w') \<and>
              calls w' = calls w @ map (\<lambda>f. [editor self, f]) (take (Suc i) fs)"
proof -
  have before: "\<forall>j<i. j < length (procs w) \<and> procs w ! j = Exit 0"
    using assms(2) by simp
  have answers: "ask \<longrightarrow>
      (\<forall>j<i. j < length (stdin w) \<and> \<not> stops (stdin w ! j) \<and> stdin w ! j \<noteq> Interrupt)"
    using assms(5) by simp
  from loop_prefix_then [OF assms(1) before assms(8) answers, of self] assms(3) obtain w1 where
    w1: "edit_files_loop self ask n 0 fs w =
           edit_files_loop self ask n i (fs ! i # drop (Suc i) fs) w1"
      "calls w1 = calls w @ map (\<lambda>f. [editor self, f]) (take i fs)"
      "procs w1 = drop i (procs w)" "stdin w1 = drop i (stdin w)"
    by auto
  from assms(2) have pi: "i < length (procs w)" "procs w ! i = Exit 0" by simp_all
  from pi(1) have "drop i (procs w) = procs w ! i # drop (Suc i) (procs w)"
    by (simp add: Cons_nth_drop_Suc)
  with w1(3) pi(2) have p: "procs w1 = Exit 0 # drop (Suc i) (procs w)"
    by simp
  from w1(4) assms(6) have s: "stdin w1 = stdin w ! i # drop (Suc i) (stdin w)"
    by (simp add: Cons_nth_drop_Suc)
  from loop_stops_now [OF p assms(3,4) s assms(7), of self "fs ! i" "drop (Suc i) fs"]
  obtain w' where "edit_files_loop self ask n i (fs ! i # drop (Suc i) fs) w1 = (Returned 0, w')"
    "calls w' = calls w1 @ [[editor self, fs ! i]]"
    by blast
  with w1 assms(1) show ?thesis
    by (intro exI [of _ w']) (simp add: take_Suc_conv_app_nth)
qed

lemma loop_all_succeed:
  assumes "\<forall>j<length fs. j < length (procs w) \<and> procs w ! j = Exit 0"
    "ask \<longrightarrow> (\<forall>j<length fs. int j \<noteq> n - 1 \<longrightarrow>
       j < length (stdin w) \<and> \<not> stops (stdin w ! j) \<and> stdin w ! j \<noteq> Interrupt)"
    "\<forall>j. Suc j < length fs \<longrightarrow> int j \<noteq> n - 1"
  shows "\<exists>w'. edit_files_loop self ask n 0 fs w = (Returned 0, w') \<and>
              calls w' = calls w @ map (\<lambda>f. [editor self, f]) fs"
proof (cases fs)
  case Nil
  then show ?thesis by simp
next
  case (Cons f0 rest0)
  define i where "i = length fs - 1"
  have i: "i < length fs" "Suc i = length fs"
    using Cons by (simp_all add: i_def)
  have before: "\<forall>j<i. j < length (procs w) \<and> procs w ! j = Exit 0"
    using assms(1) i(1) by simp
  have answers: "ask \<longrightarrow>
      (\<forall>j<i. j < length (stdin w) \<and> \<not> stops (stdin w ! j) \<and> stdin w ! j \<noteq> Interrupt)"
  proof (intro impI allI)
    fix j assume "ask" "j < i"
    with i(2) have "j < length fs" "Suc j < length fs" by simp_all
    with assms(2,3) \<open>ask\<close> show "j < length (stdin w) \<and> \<not> stops (stdin w ! j) \<and>
        stdin w ! j \<noteq> Interrupt"
      by blast
  qed
  from loop_prefix_then [OF i(1) before assms(3) answers, of self] obtain w1 where
    w1: "edit_files_loop self ask n 0 fs w =
           edit_files_loop self ask n i (fs ! i # drop (Suc i) fs) w1"
      "calls w1 = calls w @ map (\<lambda>f. [editor self, f]) (take i fs)"
      "procs w1 = drop i (procs w)" "stdin w1 = (if ask then drop i (stdin w) else stdin w)"
    by blast
  from i(2) have last: "drop (Suc i) fs = []" by simp
  from assms(1) i(1) have pi: "i < length (procs w)" "procs w ! i = Exit 0" by simp_all
  from pi(1) have "drop i (procs w) = procs w ! i # drop (Suc i) (procs w)"
    by (simp add: Cons_nth_drop_Suc)
  with w1(3) pi(2) have p: "procs w1 = Exit 0 # drop (Suc i) (procs w)"
    by simp
  have prompt: "ask \<and> int i \<noteq> n - 1 \<longrightarrow> stdin w1 \<noteq> [] \<and> hd (stdin w1) \<noteq> Interrupt"
  proof
    assume a: "ask \<and> int i \<noteq> n - 1"
    with assms(2) i(1) have "i < length (stdin w)" "stdin w ! i \<noteq> Interrupt" by simp_all
    with a w1(4) show "stdin w1 \<noteq> [] \<and> hd (stdin w1) \<noteq> Interrupt"
      by (simp add: hd_drop_conv_nth)
  qed
  from loop_last_file [OF p prompt, of self "fs ! i"] obtain w' where
    w': "edit_files_loop self ask n i [fs ! i] w1 = (Returned 0, w')"
      "calls w' = calls w1 @ [[editor self, fs ! i]]"
    by blast
  have run: "edit_files_loop self ask n 0 fs w = (Returned 0, w')"
    using w1(1) w'(1) unfolding last by (rule trans)
  have t1: "take (Suc i) fs = take i fs @ [fs ! i]"
    using i(1) by (rule take_Suc_conv_app_nth)
  have t2: "take (Suc i) fs = fs"
    using i(2) by simp
  have fs: "fs = take i fs @ [fs ! i]"
    using t1 unfolding t2 .
  have "map (\<lambda>f. [editor self, f]) fs =
      map (\<lambda>f. [editor self, f]) (take i fs @ [fs ! i])"
    by (rule arg_cong [OF fs])
  then have "map (\<lambda>f. [editor self, f]) fs =
      map (\<lambda>f. [editor self, f]) (take i fs) @ [[editor self, fs ! i]]"
    by (simp only: map_append list.map)
  with w'(2) w1(2) have "calls w' = calls w @ map (\<lambda>f. [editor self, f]) fs"
    by simp
  with run show ?thesis by blast
qed

lemma not_last_index:
  "Suc j < length (list_strings fnames) \<Longrightarrow> int j \<noteq> len fnames - 1"
  by (cases fnames) auto

lemma strip_lower_y: "strip (lower ''y'') = ''y''"
  by code_simp

lemma strip_lower_n: "strip (lower ''n'') = ''n''"
  by code_simp

text \<open>
  Claim C10. Let \<open>k\<close> be the number of editor runs \<^verbatim>\<open>Editor.edit_files\<close> starts: they
  are the runs on the first \<open>k\<close> files of the list, in order, and run \<open>j\<close> ends as
  \<open>procs w ! j\<close> says. When \<^verbatim>\<open>edit_files\<close> returns 0, each of these runs has returned 0,
  and it stopped before the end of the list only if \<^verbatim>\<open>ask_for_exit\<close> holds and the user
  answered the continue prompt with the wish to stop. When it returns another value,
  that value is the exit status of the last run, every run before has returned 0, and
  no later file is edited. Whenever there are enough events (every run exits, the user
  answers every prompt) it does return, and it returns 0 if every file's run returns
  0.

  In the other direction, with the prompt after run \<open>j\<close> answered by \<open>stdin w ! j\<close>:
  \<^item> when every file's run returns 0 and every prompt that is asked is answered with
    the wish to go on, \<^verbatim>\<open>edit_files\<close> returns 0 after editing every file;
  \<^item> when the runs up to file \<open>i\<close> return 0, the prompts before it are answered with the
    wish to go on and the prompt after it with the wish to stop, \<^verbatim>\<open>edit_files\<close> returns
    0 after editing the files up to \<open>i\<close> and no later one;
  \<^item> when the run on file \<open>i\<close> is the first that returns a status \<open>r\<close> other than 0 and
    the prompts before it are answered with the wish to go on, \<^verbatim>\<open>edit_files\<close> returns
    \<open>r\<close> after editing the files up to \<open>i\<close> and no later one.
\<close>

theorem edit_files_exit_status:
  assumes "edit_files self fnames ask_for_exit w = (res, w')"
  shows "(\<exists>k\<le>length (list_strings fnames).
            calls w' = calls w @ map (\<lambda>f. [editor self, f]) (take k (list_strings fnames)) \<and>
            (\<forall>r. res = Returned r \<longrightarrow>
               k \<le> length (procs w) \<and>
               (r = 0 \<longrightarrow> (\<forall>j<k. procs w ! j = Exit 0) \<and>
                  (k < length (list_strings fnames) \<longrightarrow>
                     ask_for_exit \<and> (\<exists>pre e. stdin w = pre @ e # stdin w' \<and> stops e))) \<and>
               (r \<noteq> 0 \<longrightarrow> 0 < k \<and> procs w ! (k - 1) = Exit r \<and>
                  (\<forall>j<k - 1. procs w ! j = Exit 0)))) \<and>
         (length (list_strings fnames) \<le> length (procs w) \<and> CallFails \<notin> set (procs w) \<and>
          (ask_for_exit \<longrightarrow> length (list_strings fnames) \<le> length (stdin w)) \<and>
          Interrupt \<notin> set (stdin w) \<longrightarrow>
            (\<exists>r. res = Returned r) \<and>
            ((\<forall>j<length (list_strings fnames). procs w ! j = Exit 0) \<longrightarrow> res = Returned 0)) \<and>
         ((\<forall>j<length (list_strings fnames). j < length (procs w) \<and> procs w ! j = Exit 0) \<and>
          (ask_for_exit \<longrightarrow>
             (\<forall>j<length (list_strings fnames). int j \<noteq> len fnames - 1 \<longrightarrow>
                j < length (stdin w) \<and> \<not> stops (stdin w ! j) \<and> stdin w ! j \<noteq> Interrupt)) \<longrightarrow>
            res = Returned 0 \<and>
            calls w' = calls w @ map (\<lambda>f. [editor self, f]) (list_strings fnames)) \<and>
         (\<forall>i. i < length (list_strings fnames) \<and>
              (\<forall>j\<le>i. j < length (procs w) \<and> procs w ! j = Exit 0) \<and>
              ask_for_exit \<and> int i \<noteq> len fnames - 1 \<and>
              (\<forall>j<i. j < length (stdin w) \<and> \<not> stops (stdin w ! j) \<and> stdin w ! j \<noteq> Interrupt) \<and>
              i < length (stdin w) \<and> stops (stdin w ! i) \<longrightarrow>
            res = Returned 0 \<and>
            calls w' =
              calls w @ map (\<lambda>f. [editor self, f]) (take (Suc i) (list_strings fnames))) \<and>
         (\<forall>i r. i < length (list_strings fnames) \<and>
              (\<forall>j<i. j < length (procs w) \<and> procs w ! j = Exit 0) \<and>
              i < length (procs w) \<and> procs w ! i = Exit r \<and> r \<noteq> 0 \<and>
              (ask_for_exit \<longrightarrow>
                 (\<forall>j<i. j < length (stdin w) \<and> \<not> stops (stdin w ! j) \<and>
                    stdin w ! j \<noteq> Interrupt)) \<longrightarrow>
            res = Returned r \<and>
            calls w' =
              calls w @ map (\<lambda>f. [editor self, f]) (take (Suc i) (list_strings fnames)))"
proof (intro conjI impI allI)
  let ?fs = "list_strings fnames"
  from assms have run: "edit_files_loop self ask_for_exit (len fnames) 0 ?fs w = (res, w')"
    by (simp add: edit_files_def)
  have notlast: "\<forall>j. Suc j < length ?fs \<longrightarrow> int j \<noteq> len fnames - 1"
    by (simp add: not_last_index)
  from loop_char [OF run]
  show char: "\<exists>k\<le>length ?fs.
            calls w' = calls w @ map (\<lambda>f. [editor self, f]) (take k ?fs) \<and>
            (\<forall>r. res = Returned r \<longrightarrow>
               k \<le> length (procs w) \<and>
               (r = 0 \<longrightarrow> (\<forall>j<k. procs w ! j = Exit 0) \<and>
                  (k < length ?fs \<longrightarrow>
                     ask_for_exit \<and> (\<exists>pre e. stdin w = pre @ e # stdin w' \<and> stops e))) \<and>
               (r \<noteq> 0 \<longrightarrow> 0 < k \<and> procs w ! (k - 1) = Exit r \<and>
                  (\<forall>j<k - 1. procs w ! j = Exit 0)))" .
  {
    assume fuel: "length ?fs \<le> length (procs w) \<and> CallFails \<notin> set (procs w) \<and>
          (ask_for_exit \<longrightarrow> length ?fs \<le> length (stdin w)) \<and> Interrupt \<notin> set (stdin w)"
    then have f: "length ?fs \<le> length (procs w)" "CallFails \<notin> set (procs w)"
      "ask_for_exit \<longrightarrow> length ?fs \<le> length (stdin w)" "Interrupt \<notin> set (stdin w)"
      by simp_all
    from loop_returns [OF f, of self "len fnames" 0] obtain r w2 where
      "edit_files_loop self ask_for_exit (len fnames) 0 ?fs w = (Returned r, w2)"
      by (elim exE)
    with run have r: "res = Returned r" by simp
    then show "\<exists>r. res = Returned r" ..
    assume zero: "\<forall>j<length ?fs. procs w ! j = Exit 0"
    show "res = Returned 0"
    proof (rule ccontr)
      assume "res \<noteq> Returned 0"
      with r have nz: "r \<noteq> 0" by simp
      from char obtain k where k: "k \<le> length ?fs" and
        kr: "\<forall>r. res = Returned r \<longrightarrow>
               k \<le> length (procs w) \<and>
               (r = 0 \<longrightarrow> (\<forall>j<k. procs w ! j = Exit 0) \<and>
                  (k < length ?fs \<longrightarrow>
                     ask_for_exit \<and> (\<exists>pre e. stdin w = pre @ e # stdin w' \<and> stops e))) \<and>
               (r \<noteq> 0 \<longrightarrow> 0 < k \<and> procs w ! (k - 1) = Exit r \<and>
                  (\<forall>j<k - 1. procs w ! j = Exit 0))"
        by (elim exE conjE)
      from kr [rule_format, OF r] nz have "0 < k" and last: "procs w ! (k - 1) = Exit r"
        by simp_all
      with k have "k - 1 < length ?fs" by simp
      with zero have "procs w ! (k - 1) = Exit 0" by simp
      with last nz show False by simp
    qed
  }
  {
    assume all: "(\<forall>j<length ?fs. j < length (procs w) \<and> procs w ! j = Exit 0) \<and>
          (ask_for_exit \<longrightarrow>
             (\<forall>j<length ?fs. int j \<noteq> len fnames - 1 \<longrightarrow>
                j < length (stdin w) \<and> \<not> stops (stdin w ! j) \<and> stdin w ! j \<noteq> Interrupt))"
    from loop_all_succeed [OF conjunct1 [OF all] conjunct2 [OF all] notlast, of self]
    obtain w2 where "edit_files_loop self ask_for_exit (len fnames) 0 ?fs w = (Returned 0, w2)"
      "calls w2 = calls w @ map (\<lambda>f. [editor self, f]) ?fs"
      by blast
    with run show "res = Returned 0" "calls w' = calls w @ map (\<lambda>f. [editor self, f]) ?fs"
      by simp_all
  }
  {
    fix i
    assume stop: "i < length ?fs \<and>
              (\<forall>j\<le>i. j < length (procs w) \<and> procs w ! j = Exit 0) \<and>
              ask_for_exit \<and> int i \<noteq> len fnames - 1 \<and>
              (\<forall>j<i. j < length (stdin w) \<and> \<not> stops (stdin w ! j) \<and> stdin w ! j \<noteq> Interrupt) \<and>
              i < length (stdin w) \<and> stops (stdin w ! i)"
    then have s: "i < length ?fs" "\<forall>j\<le>i. j < length (procs w) \<and> procs w ! j = Exit 0"
      "ask_for_exit" "int i \<noteq> len fnames - 1"
      "\<forall>j<i. j < length (stdin w) \<and> \<not> stops (stdin w ! j) \<and> stdin w ! j \<noteq> Interrupt"
      "i < length (stdin w)" "stops (stdin w ! i)"
      by simp_all
    from loop_first_stop [OF s notlast, of self]
    obtain w2 where "edit_files_loop self ask_for_exit (len fnames) 0 ?fs w = (Returned 0, w2)"
      "calls w2 = calls w @ map (\<lambda>f. [editor self, f]) (take (Suc i) ?fs)"
      by blast
    with run show "res = Returned 0"
      "calls w' = calls w @ map (\<lambda>f. [editor self, f]) (take (Suc i) ?fs)"
      by simp_all
  }
  {
    fix i r
    assume fail: "i < length ?fs \<and>
              (\<forall>j<i. j < length (procs w) \<and> procs w ! j = Exit 0) \<and>
              i < length (procs w) \<and> procs w ! i = Exit r \<and> r \<noteq> 0 \<and>
              (ask_for_exit \<longrightarrow>
                 (\<forall>j<i. j < length (stdin w) \<and> \<not> stops (stdin w ! j) \<and>
                    stdin w ! j \<noteq> Interrupt))"
    then have f: "i < length ?fs" "\<forall>j<i. j < length (procs w) \<and> procs w ! j = Exit 0"
      "i < length (procs w)" "procs w ! i = Exit r" "r \<noteq> 0"
      and a: "ask_for_exit \<longrightarrow>
                 (\<forall>j<i. j < length (stdin w) \<and> \<not> stops (stdin w ! j) \<and>
                    stdin w ! j \<noteq> Interrupt)"
      by simp_all
    from loop_first_failure [OF f notlast a, of self]
    obtain w2 where "edit_files_loop self ask_for_exit (len fnames) 0 ?fs w = (Returned r, w2)"
      "calls w2 = calls w @ map (\<lambda>f. [editor self, f]) (take (Suc i) ?fs)"
      by blast
    with run show "res = Returned r"
      "calls w' = calls w @ map (\<lambda>f. [editor self, f]) (take (Suc i) ?fs)"
      by simp_all
  }
qed

theorem edit_files_exit_status_witness:
  "fst (edit_files \<lparr>editor = ''vi''\<rparr> (StrList [''a.abi'', ''b.abi'']) True
          \<lparr>stdin = [Line ''n'', Line ''x''], procs = [Exit 0, Exit 2], stdout = [],
             calls = []\<rparr>) = Returned 0 \<and>
   calls (snd (edit_files \<lparr>editor = ''vi''\<rparr> (StrList [''a.abi'', ''b.abi'']) True
          \<lparr>stdin = [Line ''n'', Line ''x''], procs = [Exit 0, Exit 2], stdout = [],
             calls = []\<rparr>)) = [[''vi'', ''a.abi'']] \<and>
   fst (edit_files \<lparr>editor = ''vi''\<rparr> (StrList [''a.abi'', ''b.abi'', ''c.abi'']) True
          \<lparr>stdin = [Line ''y'', Line ''''], procs = [Exit 0, Exit 2, Exit 0], stdout = [],
             calls = []\<rparr>) = Returned 2 \<and>
   calls (snd (edit_files \<lparr>editor = ''vi''\<rparr> (StrList [''a.abi'', ''b.abi'', ''c.abi'']) True
          \<lparr>stdin = [Line ''y'', Line ''''], procs = [Exit 0, Exit 2, Exit 0], stdout = [],
             calls = []\<rparr>)) = [[''vi'', ''a.abi''], [''vi'', ''b.abi'']]"
proof -
  have n: "stops (Line ''n'')"
    by (simp add: stops_def strip_lower_n)
  have y: "\<not> stops (Line ''y'')"
    by (simp add: stops_def strip_lower_y)
  note stop = edit_files_exit_status [OF surjective_pairing,
      where self = "\<lparr>editor = ''vi''\<rparr>" and fnames = "StrList [''a.abi'', ''b.abi'']"
        and ask_for_exit = True
        and w = "\<lparr>stdin = [Line ''n'', Line ''x''], procs = [Exit 0, Exit 2], stdout = [],
           calls = []\<rparr>",
      THEN conjunct2, THEN conjunct2, THEN conjunct2, THEN conjunct1, rule_format,
      where i = 0]
  note fail = edit_files_exit_status [OF surjective_pairing,
      where self = "\<lparr>editor = ''vi''\<rparr>"
        and fnames = "StrList [''a.abi'', ''b.abi'', ''c.abi'']" and ask_for_exit = True
        and w = "\<lparr>stdin = [Line ''y'', Line ''''], procs = [Exit 0, Exit 2, Exit 0],
           stdout = [], calls = []\<rparr>",
      THEN conjunct2, THEN conjunct2, THEN conjunct2, THEN conjunct2, rule_format,
      where i = 1 and r = 2]
  from stop n have
    "fst (edit_files \<lparr>editor = ''vi''\<rparr> (StrList [''a.abi'', ''b.abi'']) True
          \<lparr>stdin = [Line ''n'', Line ''x''], procs = [Exit 0, Exit 2], stdout = [],
             calls = []\<rparr>) = Returned 0 \<and>
     calls (snd (edit_files \<lparr>editor = ''vi''\<rparr> (StrList [''a.abi'', ''b.abi'']) True
          \<lparr>stdin = [Line ''n'', Line ''x''], procs = [Exit 0, Exit 2], stdout = [],
             calls = []\<rparr>)) = [[''vi'', ''a.abi'']]"
    by simp
  moreover from fail y have
    "fst (edit_files \<lparr>editor = ''vi''\<rparr> (StrList [''a.abi'', ''b.abi'', ''c.abi'']) True
          \<lparr>stdin = [Line ''y'', Line ''''], procs = [Exit 0, Exit 2, Exit 0], stdout = [],
             calls = []\<rparr>) = Returned 2 \<and>
     calls (snd (edit_files \<lparr>editor = ''vi''\<rparr> (StrList [''a.abi'', ''b.abi'', ''c.abi'']) True
          \<lparr>stdin = [Line ''y'', Line ''''], procs = [Exit 0, Exit 2, Exit 0], stdout = [],
             calls = []\<rparr>)) = [[''vi'', ''a.abi''], [''vi'', ''b.abi'']]"
    by simp
  ultimately show ?thesis by simp
qed

section \<open>The stack of files\<close>

lemma enter_context_files_step:
  "files (snd (enter_context enter x self)) = files self @ [x]"
  by (auto simp: enter_context_def ExitStack_enter_context_def Let_def
      split: option.splits sum.splits)

lemma enter_all_files:
  "files (enter_all enter xs self) = files self @ xs"
  by (induction xs arbitrary: self) (simp_all add: enter_context_files_step)

text \<open>
  Claim C9. \<^verbatim>\<open>ExitStackWithFiles.enter_context\<close> appends its argument to \<^verbatim>\<open>files\<close> on every
  call, \<^verbatim>\<open>None\<close> included. For \<^verbatim>\<open>None\<close> it registers nothing and returns \<^verbatim>\<open>None\<close>; for an
  object that can be entered it registers the exit callback and returns what entering
  returned. So after any sequence of calls on a new stack, iterating yields all the
  arguments in the order of the calls, and index \<open>i\<close> gives the argument of call \<open>i\<close>.
\<close>

theorem enter_context_keeps_every_argument:
  "files (snd (enter_context enter myfile self)) = files self @ [myfile] \<and>
   enter_context enter None self = (Inr None, self\<lparr>files := files self @ [None]\<rparr>) \<and>
   (enter f = Inr result \<longrightarrow>
      enter_context enter (Some f) self =
        (Inr (Some result),
         self\<lparr>files := files self @ [Some f], exit_callbacks := exit_callbacks self @ [f]\<rparr>)) \<and>
   iter (enter_all enter xs ExitStackWithFiles_init) = xs \<and>
   (\<forall>i<length xs. getitem (enter_all enter xs ExitStackWithFiles_init) (int i) = Inr (xs ! i))"
proof (intro conjI)
  show "files (snd (enter_context enter myfile self)) = files self @ [myfile]"
    by (rule enter_context_files_step)
  show "enter_context enter None self = (Inr None, self\<lparr>files := files self @ [None]\<rparr>)"
    by (simp add: enter_context_def)
  show "enter f = Inr result \<longrightarrow>
      enter_context enter (Some f) self =
        (Inr (Some result),
         self\<lparr>files := files self @ [Some f], exit_callbacks := exit_callbacks self @ [f]\<rparr>)"
    by (simp add: enter_context_def ExitStack_enter_context_def)
  have fs: "files (enter_all enter xs ExitStackWithFiles_init) = xs"
    by (simp add: enter_all_files ExitStackWithFiles_init_def)
  then show "iter (enter_all enter xs ExitStackWithFiles_init) = xs"
    by (simp add: iter_def)
  show "\<forall>i<length xs. getitem (enter_all enter xs ExitStackWithFiles_init) (int i) = Inr (xs ! i)"
    by (simp add: getitem_def fs)
qed

theorem enter_context_keeps_every_argument_witness:
  "enter_context Inr (Some (7::nat)) \<lparr>files = [None], exit_callbacks = []\<rparr> =
     (Inr (Some 7), \<lparr>files = [None, Some 7], exit_callbacks = [7]\<rparr>) \<and>
   iter (enter_all (Inr :: nat \<Rightarrow> exn + nat) [Some 7, None, Some 9] ExitStackWithFiles_init) =
     [Some 7, None, Some 9] \<and>
   getitem (enter_all (Inr :: nat \<Rightarrow> exn + nat) [Some 7, None, Some 9] ExitStackWithFiles_init) 1 =
     Inr None"
proof -
  note t = enter_context_keeps_every_argument
    [of "Inr :: nat \<Rightarrow> exn + nat" "None" "\<lparr>files = [None], exit_callbacks = []\<rparr>" 7 7
      "[Some 7, None, Some 9]"]
  from t have "\<forall>i<3. getitem (enter_all (Inr :: nat \<Rightarrow> exn + nat) [Some 7, None, Some 9]
      ExitStackWithFiles_init) (int i) = Inr ([Some 7, None, Some 9] ! i)"
    by simp
  then have "getitem (enter_all (Inr :: nat \<Rightarrow> exn + nat) [Some 7, None, Some 9]
      ExitStackWithFiles_init) (int 1) = Inr ([Some 7, None, Some 9] ! 1)"
    by (rule allE [of _ 1]) simp
  with t show ?thesis by simp
qed

section \<open>The task manager of the sample\<close>

lemma QueueAdapter_of_sample:
  "\<exists>q. those (map QueueAdapter_of_doc (the (get_seq ''qadapters'' MANAGER_doc))) = Some [q] \<and>
       qtype q = ''slurm'' \<and> min_cores q = 4 \<and> max_cores q = 12 \<and>
       mpi_procs q = 4 \<and> omp_threads q = 1"
  by (simp add: MANAGER_doc_def get_seq_def ymap_get_def QueueAdapter_of_doc_def get_int_def
      get_str_def)

lemma from_dict_MANAGER_doc:
  "\<exists>q. from_dict MANAGER_doc = Inr \<lparr>policy = \<lparr>autoparal = 0\<rparr>, qad = q, other_qads = []\<rparr> \<and>
       qtype q = ''slurm'' \<and> min_cores q = 4 \<and> max_cores q = 12 \<and>
       mpi_procs q = 4 \<and> omp_threads q = 1"
proof -
  have s: "get_seq ''qadapters'' MANAGER_doc \<noteq> None"
    by (simp add: MANAGER_doc_def get_seq_def ymap_get_def)
  have p: "TaskPolicy_of_doc MANAGER_doc = Some \<lparr>autoparal = 0\<rparr>"
    by (simp add: MANAGER_doc_def TaskPolicy_of_doc_def ymap_get_def)
  from QueueAdapter_of_sample obtain q where
    q: "those (map QueueAdapter_of_doc (the (get_seq ''qadapters'' MANAGER_doc))) = Some [q]"
      "qtype q = ''slurm''" "min_cores q = 4" "max_cores q = 12"
      "mpi_procs q = 4" "omp_threads q = 1"
    by blast
  from s obtain docs where docs: "get_seq ''qadapters'' MANAGER_doc = Some docs"
    by auto
  with q(1) have "those (map QueueAdapter_of_doc docs) = Some [q]" by simp
  with docs p have "from_dict MANAGER_doc =
      Inr \<lparr>policy = \<lparr>autoparal = 0\<rparr>, qad = q, other_qads = []\<rparr>"
    by (simp add: from_dict_def TaskManager_of_doc_def)
  with q(2-) show ?thesis by blast
qed

text \<open>
  Claim C1. When the YAML loader reads the text \<^verbatim>\<open>MANAGER\<close> as the document
  \<open>MANAGER_doc\<close> (limits \<^verbatim>\<open>min_cores: 4\<close>, \<^verbatim>\<open>max_cores: 12\<close>, no policy),
  \<^verbatim>\<open>TaskManager.from_string\<close> succeeds and the manager has 4 cores, 4 MPI processes and
  1 thread, and it has a queue.
\<close>

theorem sample_manager_counts:
  assumes "load MANAGER = Inr MANAGER_doc"
  shows "\<exists>m. from_string load MANAGER = Inr m \<and> manager_num_cores m = 4 \<and>
             manager_mpi_procs m = 4 \<and> manager_omp_threads m = 1 \<and> has_queue m"
proof -
  from from_dict_MANAGER_doc obtain q where
    q: "from_dict MANAGER_doc = Inr \<lparr>policy = \<lparr>autoparal = 0\<rparr>, qad = q, other_qads = []\<rparr>"
      "qtype q = ''slurm''" "mpi_procs q = 4" "omp_threads q = 1"
    by blast
  with assms show ?thesis
    by (simp add: from_string_def yaml_safe_load_def manager_num_cores_def num_cores_def
        manager_mpi_procs_def manager_omp_threads_def has_queue_def)
qed

theorem sample_manager_counts_witness:
  "\<exists>m. from_string (\<lambda>s. Inr MANAGER_doc) MANAGER = Inr m \<and> manager_num_cores m = 4 \<and>
       manager_mpi_procs m = 4 \<and> manager_omp_threads m = 1 \<and> has_queue m"
  using sample_manager_counts [of "\<lambda>s. Inr MANAGER_doc"] by simp

lemma to_shell_manager_result:
  "deref st a = Some m \<Longrightarrow>
   to_shell_manager a n st = Some (length st, st @ [shell_manager m n])"
  by (simp add: to_shell_manager_def alloc_def)

lemma deref_append:
  "a < length st \<Longrightarrow> deref (st @ [m]) a = deref st a"
  by (simp add: deref_def nth_append)

lemma deref_new:
  "deref (st @ [m]) (length st) = Some m"
  by (simp add: deref_def)

text \<open>
  Claim C2. With the manager parsed from the sample stored at address \<open>a\<close>,
  \<^verbatim>\<open>to_shell_manager(mpi_procs=1)\<close> returns another address \<open>b\<close>; the manager at \<open>b\<close> has
  1 MPI process, 1 core and no queue, and the manager at \<open>a\<close> is the one it was: its
  number of cores is still 4.
\<close>

theorem shell_manager_leaves_original:
  assumes "load MANAGER = Inr MANAGER_doc"
  shows "\<exists>m a st1 b st2.
           from_string load MANAGER = Inr m \<and> alloc m st = (a, st1) \<and>
           to_shell_manager a 1 st1 = Some (b, st2) \<and> b \<noteq> a \<and>
           map_option manager_mpi_procs (deref st2 b) = Some 1 \<and>
           map_option manager_num_cores (deref st2 b) = Some 1 \<and>
           map_option has_queue (deref st2 b) = Some False \<and>
           deref st2 a = deref st1 a \<and>
           map_option manager_num_cores (deref st2 a) = Some 4"
proof -
  from from_dict_MANAGER_doc obtain q where
    q: "from_dict MANAGER_doc = Inr \<lparr>policy = \<lparr>autoparal = 0\<rparr>, qad = q, other_qads = []\<rparr>"
      "qtype q = ''slurm''" "mpi_procs q = 4" "omp_threads q = 1"
    by blast
  define m where "m = \<lparr>policy = \<lparr>autoparal = 0\<rparr>, qad = q, other_qads = []\<rparr>"
  define a where "a = length st"
  define st1 where "st1 = st @ [m]"
  define st2 where "st2 = st1 @ [shell_manager m 1]"
  have parsed: "from_string load MANAGER = Inr m"
    using assms q(1) by (simp add: from_string_def yaml_safe_load_def m_def)
  have al: "alloc m st = (a, st1)"
    by (simp add: alloc_def a_def st1_def)
  have old: "deref st1 a = Some m"
    by (simp add: a_def st1_def deref_new)
  from to_shell_manager_result [OF old]
  have sh: "to_shell_manager a 1 st1 = Some (length st1, st2)"
    by (simp add: st2_def)
  have new: "deref st2 (length st1) = Some (shell_manager m 1)"
    by (simp add: st2_def deref_new)
  have same: "deref st2 a = deref st1 a"
    unfolding st2_def by (rule deref_append) (simp add: a_def st1_def)
  have counts: "manager_mpi_procs (shell_manager m 1) = 1"
    "manager_num_cores (shell_manager m 1) = 1" "\<not> has_queue (shell_manager m 1)"
    "manager_num_cores m = 4"
    using q(2-) by (simp_all add: m_def shell_manager_def shell_adapter_def
        manager_mpi_procs_def manager_num_cores_def num_cores_def has_queue_def)
  have ne: "length st1 \<noteq> a"
    by (simp add: a_def st1_def)
  show ?thesis
    using parsed al sh ne new same old counts
    by (intro exI [of _ m] exI [of _ a] exI [of _ st1] exI [of _ "length st1"] exI [of _ st2])
      simp
qed

theorem shell_manager_leaves_original_witness:
  "\<exists>m a st1 b st2.
     from_string (\<lambda>s. Inr MANAGER_doc) MANAGER = Inr m \<and> alloc m [] = (a, st1) \<and>
     to_shell_manager a 1 st1 = Some (b, st2) \<and> b \<noteq> a \<and>
     map_option manager_mpi_procs (deref st2 b) = Some 1 \<and>
     map_option manager_num_cores (deref st2 b) = Some 1 \<and>
     map_option has_queue (deref st2 b) = Some False \<and>
     deref st2 a = deref st1 a \<and>
     map_option manager_num_cores (deref st2 a) = Some 4"
  using shell_manager_leaves_original [of "\<lambda>s. Inr MANAGER_doc" "[]"] by simp

lemma QueueAdapter_roundtrip:
  "QueueAdapter_of_doc d = Some q \<Longrightarrow> QueueAdapter_of_doc (QueueAdapter_as_dict q) = Some q"
  by (auto simp: QueueAdapter_of_doc_def QueueAdapter_as_dict_def bind_eq_Some_conv
      get_int_def get_str_def ymap_get_def)

lemma those_QueueAdapter_roundtrip:
  "those (map QueueAdapter_of_doc docs) = Some qs \<Longrightarrow>
   those (map QueueAdapter_of_doc (map QueueAdapter_as_dict qs)) = Some qs"
proof (induction docs arbitrary: qs)
  case Nil
  then show ?case by simp
next
  case (Cons d docs)
  then obtain q rest where
    q: "QueueAdapter_of_doc d = Some q" "those (map QueueAdapter_of_doc docs) = Some rest"
      "qs = q # rest"
    by (auto split: option.splits)
  from Cons.IH [OF q(2)] QueueAdapter_roundtrip [OF q(1)] q(3)
  show ?case by simp
qed

lemma TaskPolicy_roundtrip:
  "TaskPolicy_of_doc
     (YMap [(''policy'', YMap [(''autoparal'', YInt (autoparal pol))]), (''qadapters'', x)]) =
   Some pol"
  by (simp add: TaskPolicy_of_doc_def ymap_get_def)

text \<open>
  Claim C3. For every manager \<^verbatim>\<open>from_string\<close> builds (from the sample or from any other
  text), \<^verbatim>\<open>from_dict\<close> of its \<^verbatim>\<open>as_dict\<close> succeeds and is the manager itself.
\<close>

theorem manager_dict_roundtrip:
  assumes "from_string load s = Inr m"
  shows "from_dict (as_dict m) = Inr m"
proof -
  from assms obtain d where d: "TaskManager_of_doc d = Some m"
    by (auto simp: from_string_def from_dict_def split: sum.splits option.splits)
  then obtain pol docs qs where
    parts: "those (map QueueAdapter_of_doc docs) = Some qs"
      "(case qs of [] \<Rightarrow> None
        | q # rest \<Rightarrow> Some \<lparr>policy = pol, qad = q, other_qads = rest\<rparr>) = Some m"
    unfolding TaskManager_of_doc_def bind_eq_Some_conv by blast
  from parts(2) have "qs = qad m # other_qads m"
    by (cases qs) auto
  with parts(1) have qs: "those (map QueueAdapter_of_doc docs) = Some qs"
    "qs = qad m # other_qads m"
    by simp_all
  from those_QueueAdapter_roundtrip [OF qs(1)]
  have "those (map QueueAdapter_of_doc (map QueueAdapter_as_dict (qads m))) =
      Some (qad m # other_qads m)"
    by (simp only: qs(2) qads_def)
  then have "TaskManager_of_doc (as_dict m) = Some m"
    by (simp add: TaskManager_of_doc_def as_dict_def TaskPolicy_roundtrip get_seq_def
        ymap_get_def)
  then show ?thesis
    by (simp add: from_dict_def)
qed

theorem manager_dict_roundtrip_witness:
  "\<exists>m. from_string (\<lambda>s. Inr MANAGER_doc) MANAGER = Inr m \<and> from_dict (as_dict m) = Inr m"
proof -
  from from_dict_MANAGER_doc obtain m where
    m: "from_string (\<lambda>s. Inr MANAGER_doc) MANAGER = Inr m"
    by (auto simp: from_string_def yaml_safe_load_def)
  from manager_dict_roundtrip [OF m] m show ?thesis by blast
qed

text \<open>
  Claim C4. For every manager and all counts \<open>p\<close> and \<open>t\<close>,
  \<^verbatim>\<open>new_with_fixed_mpi_omp(mpi_procs=p, omp_threads=t)\<close> has \<open>p * t\<close> cores, and every
  queue adapter of it has \<open>min_cores\<close> and \<open>max_cores\<close> equal to \<open>p * t\<close>. On the
  manager of the sample with \<open>p = 5\<close> and \<open>t = 2\<close> that is 10.
\<close>

theorem fixed_mpi_omp_core_limits:
  "manager_num_cores (new_with_fixed_mpi_omp m p t) = p * t \<and>
   manager_mpi_procs (new_with_fixed_mpi_omp m p t) = p \<and>
   manager_omp_threads (new_with_fixed_mpi_omp m p t) = t \<and>
   autoparal (policy (new_with_fixed_mpi_omp m p t)) = 0 \<and>
   (\<forall>q\<in>set (qads (new_with_fixed_mpi_omp m p t)). min_cores q = p * t \<and> max_cores q = p * t)"
  by (auto simp: new_with_fixed_mpi_omp_def fixed_adapter_def manager_num_cores_def
      manager_mpi_procs_def manager_omp_threads_def num_cores_def qads_def)

theorem fixed_mpi_omp_core_limits_witness:
  "\<exists>m. from_string (\<lambda>s. Inr MANAGER_doc) MANAGER = Inr m \<and>
       manager_num_cores (new_with_fixed_mpi_omp m 5 2) = 10 \<and>
       list_all (\<lambda>q. min_cores q = 10 \<and> max_cores q = 10) (qads (new_with_fixed_mpi_omp m 5 2))"
proof -
  from from_dict_MANAGER_doc obtain m where
    m: "from_string (\<lambda>s. Inr MANAGER_doc) MANAGER = Inr m"
    by (auto simp: from_string_def yaml_safe_load_def)
  from fixed_mpi_omp_core_limits [of m 5 2] m show ?thesis
    by (auto simp: list_all_iff)
qed

section \<open>The parallel hints of the sample\<close>

lemma lines_from_line:
  "CHR 0x0A \<notin> set l \<Longrightarrow> lines_from cur (l @ CHR 0x0A # rest) = (cur @ l) # lines_from [] rest"
  by (induction l arbitrary: cur) auto

lemma split_lines_unlines:
  "\<forall>l\<in>set ls. CHR 0x0A \<notin> set l \<Longrightarrow> split_lines (unlines ls) = ls"
proof (induction ls)
  case Nil
  then show ?case by (simp add: split_lines_def unlines_def)
next
  case (Cons l ls)
  then have "lines_from [] (l @ CHR 0x0A # unlines ls) = l # lines_from [] (unlines ls)"
    by (simp add: lines_from_line)
  with Cons show ?case
    by (simp add: split_lines_def unlines_def)
qed

lemma tag_of_marker: "strip '' !Autoparal'' = ''!Autoparal''"
  by code_simp

lemma Autoparal_text_lines: "split_lines Autoparal_text = Autoparal_lines"
  unfolding Autoparal_text_def
  by (rule split_lines_unlines) (simp add: Autoparal_lines_def)

lemma Autoparal_notag_lines: "split_lines Autoparal_notag = ''---'' # tl Autoparal_lines"
  unfolding Autoparal_notag_def
  by (rule split_lines_unlines) (simp add: Autoparal_lines_def)

lemma Autoparal_document:
  "next_doc_with_tag ''!Autoparal'' (split_lines Autoparal_text) = Some Autoparal_lines"
  unfolding Autoparal_text_lines
  by (simp add: Autoparal_lines_def starts_doc_def ends_doc_def doc_tag_def tag_of_marker)

lemma Autoparal_document_notag: "text_notag Autoparal_lines = Autoparal_notag"
  by (simp add: text_notag_def Autoparal_notag_def Autoparal_lines_def)

lemma no_document_without_tag:
  "next_doc_with_tag ''!Autoparal'' (split_lines Autoparal_notag) = None"
  unfolding Autoparal_notag_lines
  by (simp add: Autoparal_lines_def starts_doc_def doc_tag_def strip_def)

lemma ParalHints_of_sample:
  "\<exists>i. ParalHints_of_doc Autoparal_doc =
     Some \<lparr>info = i,
       confs =
         [\<lparr>tot_ncpus = 1, mpi_ncpus = 1, efficiency = 1.000000000, mem_per_cpu = 11.54,
             vars = [(''npfft'', 1), (''npkpt'', 1)]\<rparr>,
          \<lparr>tot_ncpus = 2, mpi_ncpus = 2, efficiency = 1.000000000, mem_per_cpu = 7.42,
             vars = [(''npfft'', 1), (''npkpt'', 2)]\<rparr>,
          \<lparr>tot_ncpus = 2, mpi_ncpus = 2, efficiency = 0.100000000, mem_per_cpu = 9.42,
             vars = [(''npfft'', 2), (''npkpt'', 1)]\<rparr>,
          \<lparr>tot_ncpus = 3, mpi_ncpus = 3, efficiency = 0.833333333, mem_per_cpu = 6.60,
             vars = [(''npfft'', 3), (''npkpt'', 1)]\<rparr>,
          \<lparr>tot_ncpus = 4, mpi_ncpus = 4, efficiency = 0.833333333, mem_per_cpu = 15.77,
             vars = [(''npfft'', 2), (''npkpt'', 2)]\<rparr>]\<rparr>"
  by (simp add: Autoparal_doc_def conf_doc_def ParalHints_of_doc_def ParalConf_of_doc_def
      vars_of_doc_def var_of_doc_def get_seq_def get_int_def get_num_def ymap_get_def)

text \<open>
  Claim C5. The test's text holds one document tagged \<^verbatim>\<open>!Autoparal\<close>. When the YAML
  loader reads that document, its first line reduced to the marker \<^verbatim>\<open>---\<close>, as
  \<open>Autoparal_doc\<close> with its five configurations, \<^verbatim>\<open>ParalHintsParser().parse\<close> of the
  text succeeds and the hints have \<^verbatim>\<open>max_cores\<close> 4, \<^verbatim>\<open>max_mem_per_proc\<close> 15.77,
  \<^verbatim>\<open>max_speedup\<close> 3.333333332 (the greatest efficiency times number of cores) and
  \<^verbatim>\<open>max_efficiency\<close> 1.0, the numbers taken as the decimal fractions they write.
\<close>

theorem sample_hints_maxima:
  assumes "load Autoparal_notag = Inr Autoparal_doc"
  shows "\<exists>h. parse load Autoparal_text = Inr h \<and> max_cores_of h = Inr 4 \<and>
             max_mem_per_proc h = Inr 15.77 \<and> max_speedup h = Inr 3.333333332 \<and>
             max_efficiency h = Inr 1.0"
proof -
  from ParalHints_of_sample obtain h where
    h: "ParalHints_of_doc Autoparal_doc = Some h"
    and c: "map tot_ncpus (confs h) = [1, 2, 2, 3, 4]"
      "map mem_per_cpu (confs h) = [11.54, 7.42, 9.42, 6.60, 15.77]"
      "map efficiency (confs h) = [1.000000000, 1.000000000, 0.100000000, 0.833333333,
         0.833333333]"
      "map speedup (confs h) = [1.000000000 * 1, 1.000000000 * 2, 0.100000000 * 2,
         0.833333333 * 3, 0.833333333 * 4]"
    by (auto simp: speedup_def)
  have "parse load Autoparal_text = Inr h"
    using assms h
    by (simp add: parse_def Autoparal_document Autoparal_document_notag yaml_safe_load_def)
  moreover have "max_cores_of h = Inr 4"
    by (simp add: max_cores_of_def c(1) py_max_def)
  moreover have "max_mem_per_proc h = Inr 15.77"
    by (simp add: max_mem_per_proc_def c(2) py_max_def)
  moreover have "max_speedup h = Inr 3.333333332"
    by (simp add: max_speedup_def c(4) py_max_def)
  moreover have "max_efficiency h = Inr 1.0"
    by (simp add: max_efficiency_def c(3) py_max_def)
  ultimately show ?thesis by blast
qed

theorem sample_hints_maxima_witness:
  "(\<exists>h. parse (\<lambda>s. if s = Autoparal_notag then Inr Autoparal_doc else Inl YAMLError)
          Autoparal_text = Inr h \<and>
        max_cores_of h = Inr 4 \<and> max_mem_per_proc h = Inr 15.77 \<and>
        max_speedup h = Inr 3.333333332 \<and> max_efficiency h = Inr 1.0) \<and>
   parse (\<lambda>s. if s = Autoparal_notag then Inr Autoparal_doc else Inl YAMLError)
     Autoparal_notag = Inl ValueError \<and>
   parse (\<lambda>s. if s = Autoparal_notag then Inr Autoparal_doc else Inl YAMLError)
     (unlines [''--- !Autoparal'', ''info: {}'', ''...'']) = Inl YAMLError"
proof -
  have other: "unlines [''---'', ''info: {}'', ''...''] \<noteq> Autoparal_notag"
    by (simp add: Autoparal_notag_def Autoparal_lines_def unlines_def)
  have short: "split_lines (unlines [''--- !Autoparal'', ''info: {}'', ''...'']) =
      [''--- !Autoparal'', ''info: {}'', ''...'']"
    by (rule split_lines_unlines) simp
  have "parse (\<lambda>s. if s = Autoparal_notag then Inr Autoparal_doc else Inl YAMLError)
     (unlines [''--- !Autoparal'', ''info: {}'', ''...'']) = Inl YAMLError"
    using other
    by (simp add: parse_def short starts_doc_def ends_doc_def doc_tag_def tag_of_marker
        text_notag_def yaml_safe_load_def)
  moreover have "parse (\<lambda>s. if s = Autoparal_notag then Inr Autoparal_doc else Inl YAMLError)
     Autoparal_notag = Inl ValueError"
    by (simp add: parse_def no_document_without_tag)
  ultimately show ?thesis
    using sample_hints_maxima
      [of "\<lambda>s. if s = Autoparal_notag then Inr Autoparal_doc else Inl YAMLError"]
    by simp
qed

end
